theory Spec2Isabelle
  imports Complex_Main "HOL-Library.Word"
begin

unbundle bit_operations_syntax

section \<open>Binary floating point (float, double)\<close>

text \<open>
  \<open>float\<close> is IEEE 754 binary32 and \<open>double\<close> is binary64. The values of a format
  with \<open>p\<close> bits of precision and least normal exponent \<open>emin\<close> are the numbers
  \<open>m * 2 ^ k\<close> with \<open>|m| < 2 ^ p\<close> and \<open>emin - p + 1 \<le> k\<close>; they are kept as the
  reals they denote. Every arithmetic operation and every conversion gives the exact
  result rounded to the nearest value of its type, a tie going to the even mantissa
  (the rounding mode a program starts in; this one never changes it). Below \<open>2 ^ emin\<close>
  the values keep the spacing of the lowest binade (gradual underflow). Each operation
  of an expression is rounded by itself to the type the language gives it: no product is
  fused with a sum, and no intermediate result is kept in a wider format. The largest
  exponent is not modelled: the numbers of this program stay far below \<open>2 ^ 127\<close>, where
  a \<open>float\<close> overflows.
\<close>

definition pow2 :: "int \<Rightarrow> real" where
  "pow2 e = 2 powr real_of_int e"

text \<open>The nearest integer, a tie going to the even one.\<close>

definition round_even :: "real \<Rightarrow> int" where
  "round_even q =
     (if q - of_int \<lfloor>q\<rfloor> < 1 / 2 then \<lfloor>q\<rfloor>
      else if 1 / 2 < q - of_int \<lfloor>q\<rfloor> then \<lfloor>q\<rfloor> + 1
      else if even \<lfloor>q\<rfloor> then \<lfloor>q\<rfloor> else \<lfloor>q\<rfloor> + 1)"

text \<open>
  The exponent of the unit in the last place at \<open>x\<close>, and the value of the format
  nearest to \<open>x\<close>.
\<close>

definition ulp_exp :: "nat \<Rightarrow> int \<Rightarrow> real \<Rightarrow> int" where
  "ulp_exp p emin x = max \<lfloor>log 2 \<bar>x\<bar>\<rfloor> emin - int p + 1"

definition fl :: "nat \<Rightarrow> int \<Rightarrow> real \<Rightarrow> real" where
  "fl p emin x =
     (if x = 0 then 0
      else of_int (round_even (x / pow2 (ulp_exp p emin x))) * pow2 (ulp_exp p emin x))"

definition f32 :: "real \<Rightarrow> real" where
  "f32 = fl 24 (- 126)"

definition f64 :: "real \<Rightarrow> real" where
  "f64 = fl 53 (- 1022)"

section \<open>Instance placement data (prepareInstanceData)\<close>

text \<open>
  Sizes, counts and indices (\<open>size_t\<close>, \<open>uint32_t\<close>) are \<^typ>\<open>nat\<close>; none of the sums
  and products below comes near \<open>2 ^ 32\<close>. A \<open>float\<close> or \<open>double\<close> is the real it
  denotes, and every operation on it is rounded as above.
\<close>

type_synonym vec3 = "real \<times> real \<times> real"

text \<open>\<open>struct InstanceData { glm::vec3 pos; glm::vec3 rot; float scale; uint32_t texIndex; }\<close>\<close>

record InstanceData =
  pos :: vec3
  rot :: vec3
  scale :: real
  texIndex :: nat

text \<open>What \<open>instanceData.resize(INSTANCE_COUNT)\<close> puts into every new element.\<close>

definition zeroInstanceData :: InstanceData where
  "zeroInstanceData = \<lparr>pos = (0, 0, 0), rot = (0, 0, 0), scale = 0, texIndex = 0\<rparr>"

definition INSTANCE_COUNT :: nat where
  "INSTANCE_COUNT = 2048"

definition rings :: "(real \<times> real) list" where
  "rings = [(5, 7), (8, 11), (13, 17), (20, 26), (30, 40), (48, 60)]"

text \<open>
  The random numbers one pass through the loop body consumes: eight draws of
  \<open>uniformDist(rndGenerator)\<close>, named after the expression that uses them, and one
  call of \<open>rand()\<close>.
\<close>

record draws =
  uRho :: real
  uTheta :: real
  uY :: real
  uRotX :: real
  uRotY :: real
  uRotZ :: real
  uScale1 :: real
  uScale2 :: real
  randTex :: nat

text \<open>
  A random source gives the draws of the pass with counters \<open>instIdInChunk\<close> and
  \<open>ringId\<close>. It is well formed when every uniform draw is a \<open>float\<close> in \<open>[0, 1)\<close>
  and every \<open>rand()\<close> lies in \<open>[0, RAND_MAX]\<close>, the ranges the C++ standard library
  documents.
\<close>

type_synonym source = "nat \<Rightarrow> nat \<Rightarrow> draws"

definition unit_draw :: "real \<Rightarrow> bool" where
  "unit_draw u = (f32 u = u \<and> 0 \<le> u \<and> u < 1)"

definition draws_ok :: "nat \<Rightarrow> draws \<Rightarrow> bool" where
  "draws_ok RAND_MAX d =
     (unit_draw (uRho d) \<and> unit_draw (uTheta d) \<and> unit_draw (uY d) \<and>
      unit_draw (uRotX d) \<and> unit_draw (uRotY d) \<and> unit_draw (uRotZ d) \<and>
      unit_draw (uScale1 d) \<and> unit_draw (uScale2 d) \<and> randTex d \<le> RAND_MAX)"

text \<open>
  \<open>float rnd(float range) { return range * (rand() / double(RAND_MAX)); }\<close>, with the
  value of \<open>rand()\<close> as an argument. \<open>RAND_MAX\<close> comes from \<open>stdlib.h\<close> and is a
  parameter here. Both integers are converted to \<open>double\<close>, the quotient and the
  product are \<open>double\<close>, and the \<open>return\<close> converts the product to \<open>float\<close>.
\<close>

definition rnd :: "nat \<Rightarrow> real \<Rightarrow> nat \<Rightarrow> real" where
  "rnd RAND_MAX range_arg r =
     f32 (f64 (range_arg * f64 (f64 (real r) / f64 (real RAND_MAX))))"

text \<open>
  The source calls \<open>pow\<close>, \<open>sqrt\<close>, \<open>cos\<close> and \<open>sin\<close> unqualified, on \<open>float\<close>
  arguments. Which function such a call selects depends on the headers of the standard
  library: where the global namespace holds the \<open>float\<close> overloads of \<open>cmath\<close>, the
  call is evaluated in \<open>float\<close>; where it holds only the functions of \<open>math.h\<close>, the
  arguments are converted to \<open>double\<close> and the result is a \<open>double\<close>. A \<open>cmath\<close>
  records which of the two holds, and what \<open>cos\<close> and \<open>sin\<close> return for an argument
  (the two are not required to round correctly). \<open>sqrt\<close> rounds correctly, as IEEE 754
  requires; \<open>pow(x, 2.0f)\<close> is taken to round the square correctly.
\<close>

record cmath =
  float_overloads :: bool
  cmath_cos :: "real \<Rightarrow> real"
  cmath_sin :: "real \<Rightarrow> real"

text \<open>
  The radius of line 803 with every operation rounded by \<open>F\<close>; \<open>ring\<close> is
  \<open>rings.at(ringId)\<close>, inner bound first. The assignment to the \<open>float\<close> variable
  \<open>rho\<close> converts a \<open>double\<close> result.
\<close>

definition radius_in :: "(real \<Rightarrow> real) \<Rightarrow> real \<times> real \<Rightarrow> real \<Rightarrow> real" where
  "radius_in F ring u =
     F (sqrt (F (F (F (F ((snd ring)\<^sup>2) - F ((fst ring)\<^sup>2)) * u) + F ((fst ring)\<^sup>2))))"

definition rho :: "cmath \<Rightarrow> real \<times> real \<Rightarrow> real \<Rightarrow> real" where
  "rho M ring u =
     (if float_overloads M then radius_in f32 ring u else f32 (radius_in f64 ring u))"

text \<open>
  \<open>M_PI\<close> is the \<open>double\<close> nearest to the decimal of \<open>math.h\<close>. In line 804 the
  products are \<open>double\<close>, and the assignment to the \<open>float\<close> variable \<open>theta\<close> converts.
\<close>

definition M_PI :: real where
  "M_PI = f64 (314159265358979323846 / 10 ^ 20)"

definition theta :: "real \<Rightarrow> real" where
  "theta u = f32 (f64 (f64 (2 * M_PI) * u))"

text \<open>
  \<open>rho*cos(theta)\<close> as the constructor of \<open>glm::vec3\<close> stores it: a \<open>float\<close> product,
  or a \<open>double\<close> product converted to \<open>float\<close>.
\<close>

definition stored_product :: "cmath \<Rightarrow> real \<Rightarrow> real \<Rightarrow> real" where
  "stored_product M a b = (if float_overloads M then f32 (a * b) else f32 (f64 (a * b)))"

text \<open>
  Lines 803 to 810, the assignments to \<open>currentInstanceRef\<close> in the order of the source.
  The layer count, a \<open>uint32_t\<close>, is converted to the \<open>float\<close> parameter of \<open>rnd\<close>, and
  the conversion of the \<open>float\<close> that \<open>rnd\<close> returns to \<open>uint32_t\<close> truncates.
\<close>

definition fillInstance ::
  "cmath \<Rightarrow> nat \<Rightarrow> nat \<Rightarrow> real \<times> real \<Rightarrow> draws \<Rightarrow> InstanceData \<Rightarrow> InstanceData" where
  "fillInstance M RAND_MAX layerCount ring d currentInstanceRef =
     (let r = rho M ring (uRho d);
          t = theta (uTheta d);
          i1 = currentInstanceRef\<lparr>pos := (stored_product M r (cmath_cos M t),
                 f32 (f32 (uY d * f32 0.05) - f32 0.25),
                 stored_product M r (cmath_sin M t))\<rparr>;
          i2 = i1\<lparr>rot := (f32 (f64 (M_PI * uRotX d)), f32 (f64 (M_PI * uRotY d)),
                 f32 (f64 (M_PI * uRotZ d)))\<rparr>;
          i3 = i2\<lparr>scale := f32 (f32 (f32 1.5 + uScale1 d) - uScale2 d)\<rparr>;
          i4 = i3\<lparr>texIndex := nat \<lfloor>rnd RAND_MAX (f32 (real layerCount)) (randTex d)\<rfloor>\<rparr>
      in i4\<lparr>scale := f32 (scale i4 * f32 0.75)\<rparr>)"

text \<open>\<open>instanceId = instIdInChunk + ringId*numInChunk\<close>\<close>

definition instanceId :: "nat \<Rightarrow> nat \<times> nat \<Rightarrow> nat" where
  "instanceId numInChunk p = fst p + snd p * numInChunk"

text \<open>
  The passes of the two nested \<open>for\<close> loops in the order they run: the outer counter
  \<open>instIdInChunk\<close> below \<open>numInChunk\<close>, the inner counter \<open>ringId\<close> below
  \<open>numOfChunks\<close>.
\<close>

definition passes :: "nat \<Rightarrow> nat \<Rightarrow> (nat \<times> nat) list" where
  "passes numInChunk numOfChunks = List.product [0..<numInChunk] [0..<numOfChunks]"

text \<open>One pass of the loop body: the element at \<open>instanceId\<close> is overwritten in place.\<close>

definition loopBody ::
  "cmath \<Rightarrow> nat \<Rightarrow> nat \<Rightarrow> (real \<times> real) list \<Rightarrow> source \<Rightarrow> nat \<Rightarrow> nat \<times> nat \<Rightarrow>
     InstanceData list \<Rightarrow> InstanceData list" where
  "loopBody M RAND_MAX layerCount rs src numInChunk p instanceData =
     instanceData[instanceId numInChunk p :=
       fillInstance M RAND_MAX layerCount (rs ! snd p) (src (fst p) (snd p))
         (instanceData ! instanceId numInChunk p)]"

text \<open>
  The generator for \<open>n\<close> instances on the rings \<open>rs\<close>: the vector is resized to \<open>n\<close>
  value-initialised elements, \<open>numInChunk = n / rs.size()\<close>, and the loops run.
\<close>

definition generate ::
  "cmath \<Rightarrow> nat \<Rightarrow> nat \<Rightarrow> nat \<Rightarrow> (real \<times> real) list \<Rightarrow> source \<Rightarrow> InstanceData list" where
  "generate M RAND_MAX layerCount n rs src =
     (let numOfChunks = length rs;
          numInChunk = n div length rs
      in fold (loopBody M RAND_MAX layerCount rs src numInChunk)
           (passes numInChunk numOfChunks) (replicate n zeroInstanceData))"

text \<open>The flat indices the loops store to, one per pass, in the order of the stores.\<close>

definition writtenIds :: "nat \<Rightarrow> nat \<Rightarrow> nat list" where
  "writtenIds n numOfChunks =
     map (instanceId (n div numOfChunks)) (passes (n div numOfChunks) numOfChunks)"

subsection \<open>Record size and upload\<close>

text \<open>
  \<open>sizeof\<close> of a struct whose members are given by size and alignment in bytes, in
  declaration order. The layout rule is the one of the C++ ABI: each member at the next
  multiple of its alignment, the size rounded up to the largest alignment.
\<close>

definition align_up :: "nat \<Rightarrow> nat \<Rightarrow> nat" where
  "align_up a n = ((n + a - 1) div a) * a"

fun member_offsets :: "(nat \<times> nat) list \<Rightarrow> nat \<Rightarrow> nat list" where
  "member_offsets [] off = []"
| "member_offsets (m # ms) off =
     align_up (snd m) off # member_offsets ms (align_up (snd m) off + fst m)"

fun members_end :: "(nat \<times> nat) list \<Rightarrow> nat \<Rightarrow> nat" where
  "members_end [] off = off"
| "members_end (m # ms) off = members_end ms (align_up (snd m) off + fst m)"

definition struct_sizeof :: "(nat \<times> nat) list \<Rightarrow> nat" where
  "struct_sizeof ms = align_up (fold max (map snd ms) 1) (members_end ms 0)"

text \<open>
  Modelled from the spec: \<open>glm::vec3\<close> is declared in the glm headers, not in this
  file. The spec describes position and rotation as 3 scalars each, so a \<open>vec3\<close> is
  three packed floats, 12 bytes aligned to 4; \<open>float\<close> and \<open>uint32_t\<close> take 4 bytes
  aligned to 4.
\<close>

definition InstanceData_members :: "(nat \<times> nat) list" where
  "InstanceData_members = [(12, 4), (12, 4), (4, 4), (4, 4)]"

definition sizeof_InstanceData :: nat where
  "sizeof_InstanceData = struct_sizeof InstanceData_members"

text \<open>
  What \<open>prepareInstanceData\<close> leaves behind: the host vector, \<open>instanceBuffer.size\<close>,
  the size arguments of the two \<open>createBuffer\<close> calls, \<open>copyRegion.size\<close> and
  \<open>instanceBuffer.descriptor.range\<close>.
\<close>

record InstanceUpload =
  instanceData :: "InstanceData list"
  instanceBuffer_size :: nat
  stagingBuffer_size :: nat
  deviceBuffer_size :: nat
  copyRegion_size :: nat
  descriptor_range :: nat

definition prepareInstanceData :: "cmath \<Rightarrow> nat \<Rightarrow> nat \<Rightarrow> source \<Rightarrow> InstanceUpload" where
  "prepareInstanceData M RAND_MAX layerCount src =
     (let data = generate M RAND_MAX layerCount INSTANCE_COUNT rings src;
          size = length data * sizeof_InstanceData
      in \<lparr>instanceData = data,
          instanceBuffer_size = size,
          stagingBuffer_size = size,
          deviceBuffer_size = size,
          copyRegion_size = size,
          descriptor_range = size\<rparr>)"

text \<open>
  The records the device-local buffer holds after \<open>vkCmdCopyBuffer\<close>: the staging buffer
  was created from \<open>instanceData.data()\<close>, and the copy moves \<open>copyRegion.size\<close> bytes
  from offset 0.
\<close>

definition uploaded :: "InstanceUpload \<Rightarrow> InstanceData list" where
  "uploaded u = take (copyRegion_size u div sizeof_InstanceData) (instanceData u)"

text \<open>
  The rings a statement about the radius can speak of: bounds that are values of
  \<open>float\<close>, as are their squares and the difference of the squares, and an outer bound
  whose square stays below the largest \<open>float\<close>. The six rings of the program are of
  this kind.
\<close>

definition ring_ok :: "real \<times> real \<Rightarrow> bool" where
  "ring_ok ring =
     (0 \<le> fst ring \<and> fst ring < snd ring \<and> snd ring \<le> 2 ^ 60 \<and>
      f32 (fst ring) = fst ring \<and> f32 (snd ring) = snd ring \<and>
      f32 ((fst ring)\<^sup>2) = (fst ring)\<^sup>2 \<and> f32 ((snd ring)\<^sup>2) = (snd ring)\<^sup>2 \<and>
      f32 ((snd ring)\<^sup>2 - (fst ring)\<^sup>2) = (snd ring)\<^sup>2 - (fst ring)\<^sup>2)"

text \<open>
  A source that draws 0 everywhere, the largest \<open>float\<close> below 1, which is
  \<open>1 - 2\<^sup>-\<^sup>2\<^sup>4\<close>, the value of \<open>RAND_MAX\<close> in glibc, and two
  libraries, one for each way the calls of lines 803 and 806 can resolve, whose \<open>cos\<close>
  and \<open>sin\<close> round correctly.
\<close>

definition largest_draw :: real where
  "largest_draw = 1 - 1 / 2 ^ 24"

definition float_cmath :: cmath where
  "float_cmath =
     \<lparr>float_overloads = True, cmath_cos = (\<lambda>t. f32 (cos t)), cmath_sin = (\<lambda>t. f32 (sin t))\<rparr>"

definition double_cmath :: cmath where
  "double_cmath =
     \<lparr>float_overloads = False, cmath_cos = (\<lambda>t. f64 (cos t)), cmath_sin = (\<lambda>t. f64 (sin t))\<rparr>"

definition zero_draws :: draws where
  "zero_draws = \<lparr>uRho = 0, uTheta = 0, uY = 0, uRotX = 0, uRotY = 0, uRotZ = 0,
     uScale1 = 0, uScale2 = 0, randTex = 0\<rparr>"

definition glibc_RAND_MAX :: nat where
  "glibc_RAND_MAX = 2147483647"

section \<open>Sample count (getMaxUsableSampleCount, setupMultisampleTarget)\<close>

text \<open>
  \<open>VkSampleCountFlags\<close> is a \<open>uint32_t\<close> bit mask and \<open>VkSampleCountFlagBits\<close> an
  enumeration of single bits. The values of the enumerators come from \<open>vulkan.h\<close>.
\<close>

type_synonym VkSampleCountFlags = "32 word"

definition VK_SAMPLE_COUNT_1_BIT :: VkSampleCountFlags where "VK_SAMPLE_COUNT_1_BIT = 1"
definition VK_SAMPLE_COUNT_2_BIT :: VkSampleCountFlags where "VK_SAMPLE_COUNT_2_BIT = 2"
definition VK_SAMPLE_COUNT_4_BIT :: VkSampleCountFlags where "VK_SAMPLE_COUNT_4_BIT = 4"
definition VK_SAMPLE_COUNT_8_BIT :: VkSampleCountFlags where "VK_SAMPLE_COUNT_8_BIT = 8"
definition VK_SAMPLE_COUNT_16_BIT :: VkSampleCountFlags where "VK_SAMPLE_COUNT_16_BIT = 16"
definition VK_SAMPLE_COUNT_32_BIT :: VkSampleCountFlags where "VK_SAMPLE_COUNT_32_BIT = 32"
definition VK_SAMPLE_COUNT_64_BIT :: VkSampleCountFlags where "VK_SAMPLE_COUNT_64_BIT = 64"

text \<open>The two members of \<open>deviceProperties.limits\<close> the program reads.\<close>

record limits =
  framebufferColorSampleCounts :: VkSampleCountFlags
  framebufferDepthSampleCounts :: VkSampleCountFlags

definition getMaxUsableSampleCount :: "limits \<Rightarrow> VkSampleCountFlags" where
  "getMaxUsableSampleCount lims =
     (let counts = min (framebufferColorSampleCounts lims) (framebufferDepthSampleCounts lims)
      in if counts AND VK_SAMPLE_COUNT_64_BIT \<noteq> 0 then VK_SAMPLE_COUNT_64_BIT
         else if counts AND VK_SAMPLE_COUNT_32_BIT \<noteq> 0 then VK_SAMPLE_COUNT_32_BIT
         else if counts AND VK_SAMPLE_COUNT_16_BIT \<noteq> 0 then VK_SAMPLE_COUNT_16_BIT
         else if counts AND VK_SAMPLE_COUNT_8_BIT \<noteq> 0 then VK_SAMPLE_COUNT_8_BIT
         else if counts AND VK_SAMPLE_COUNT_4_BIT \<noteq> 0 then VK_SAMPLE_COUNT_4_BIT
         else if counts AND VK_SAMPLE_COUNT_2_BIT \<noteq> 0 then VK_SAMPLE_COUNT_2_BIT
         else VK_SAMPLE_COUNT_1_BIT)"

text \<open>
  Following the words of the spec, for comparison with \<open>getMaxUsableSampleCount\<close>: the
  maximum sample count one mask reports, the highest of the bits 1 to 64 set in it (1 when
  none of them is set). The spec describes the chosen sample count as the minimum of the
  two maxima.
\<close>

definition maxSampleCount :: "VkSampleCountFlags \<Rightarrow> VkSampleCountFlags" where
  "maxSampleCount m =
     (if m AND VK_SAMPLE_COUNT_64_BIT \<noteq> 0 then VK_SAMPLE_COUNT_64_BIT
      else if m AND VK_SAMPLE_COUNT_32_BIT \<noteq> 0 then VK_SAMPLE_COUNT_32_BIT
      else if m AND VK_SAMPLE_COUNT_16_BIT \<noteq> 0 then VK_SAMPLE_COUNT_16_BIT
      else if m AND VK_SAMPLE_COUNT_8_BIT \<noteq> 0 then VK_SAMPLE_COUNT_8_BIT
      else if m AND VK_SAMPLE_COUNT_4_BIT \<noteq> 0 then VK_SAMPLE_COUNT_4_BIT
      else if m AND VK_SAMPLE_COUNT_2_BIT \<noteq> 0 then VK_SAMPLE_COUNT_2_BIT
      else VK_SAMPLE_COUNT_1_BIT)"

text \<open>
  The ways the program stops: a failed \<open>assert\<close> (assertions are compiled in, the file
  never defines \<open>NDEBUG\<close>), a Vulkan call that \<open>VK_CHECK_RESULT\<close> sees fail, and an
  index beyond the end of a vector.
\<close>

datatype failure = AssertionFailed | VkCheckFailed | OutOfRange

type_synonym handle = nat

text \<open>
  \<open>setupMultisampleTarget\<close>: the assertion of line 180, then the two images. Of each
  \<open>VkImageCreateInfo\<close> the sample count and the extent are kept; the views are the
  ones the driver hands back, given here as \<open>colorView\<close> and \<open>depthView\<close>.
\<close>

record MultisampleTarget =
  color_samples :: VkSampleCountFlags
  color_view :: handle
  depth_samples :: VkSampleCountFlags
  depth_view :: handle
  target_width :: nat
  target_height :: nat

definition sampleCount_supported :: "limits \<Rightarrow> VkSampleCountFlags \<Rightarrow> bool" where
  "sampleCount_supported lims sampleCount =
     (framebufferColorSampleCounts lims \<ge> sampleCount \<and>
      framebufferDepthSampleCounts lims \<ge> sampleCount)"

definition setupMultisampleTarget ::
  "limits \<Rightarrow> VkSampleCountFlags \<Rightarrow> nat \<Rightarrow> nat \<Rightarrow> handle \<Rightarrow> handle \<Rightarrow>
     failure + MultisampleTarget" where
  "setupMultisampleTarget lims sampleCount width height colorView depthView =
     (if sampleCount_supported lims sampleCount
      then Inr \<lparr>color_samples = sampleCount, color_view = colorView,
                depth_samples = sampleCount, depth_view = depthView,
                target_width = width, target_height = height\<rparr>
      else Inl AssertionFailed)"

section \<open>Render pass and frame buffers (setupRenderPass, setupFrameBuffer)\<close>

datatype VkAttachmentLoadOp =
  VK_ATTACHMENT_LOAD_OP_LOAD | VK_ATTACHMENT_LOAD_OP_CLEAR | VK_ATTACHMENT_LOAD_OP_DONT_CARE

datatype VkAttachmentStoreOp =
  VK_ATTACHMENT_STORE_OP_STORE | VK_ATTACHMENT_STORE_OP_DONT_CARE

datatype VkImageLayout =
  VK_IMAGE_LAYOUT_UNDEFINED
| VK_IMAGE_LAYOUT_COLOR_ATTACHMENT_OPTIMAL
| VK_IMAGE_LAYOUT_DEPTH_STENCIL_ATTACHMENT_OPTIMAL
| VK_IMAGE_LAYOUT_PRESENT_SRC_KHR

record VkAttachmentDescription =
  format :: handle
  samples :: VkSampleCountFlags
  loadOp :: VkAttachmentLoadOp
  storeOp :: VkAttachmentStoreOp
  stencilLoadOp :: VkAttachmentLoadOp
  stencilStoreOp :: VkAttachmentStoreOp
  initialLayout :: VkImageLayout
  finalLayout :: VkImageLayout

text \<open>
  \<open>std::array<VkAttachmentDescription, 4> attachments = {}\<close> zeroes every member; the
  enumerators with value 0 are \<open>LOAD_OP_LOAD\<close>, \<open>STORE_OP_STORE\<close> and
  \<open>LAYOUT_UNDEFINED\<close>.
\<close>

definition zeroAttachment :: VkAttachmentDescription where
  "zeroAttachment =
     \<lparr>format = 0, samples = 0, loadOp = VK_ATTACHMENT_LOAD_OP_LOAD,
      storeOp = VK_ATTACHMENT_STORE_OP_STORE, stencilLoadOp = VK_ATTACHMENT_LOAD_OP_LOAD,
      stencilStoreOp = VK_ATTACHMENT_STORE_OP_STORE,
      initialLayout = VK_IMAGE_LAYOUT_UNDEFINED, finalLayout = VK_IMAGE_LAYOUT_UNDEFINED\<rparr>"

record VkAttachmentReference =
  attachment :: nat
  layout :: VkImageLayout

text \<open>
  A subpass index, or \<open>VK_SUBPASS_EXTERNAL\<close>. The masks of a dependency are bit masks
  with the values of \<open>vulkan.h\<close>.
\<close>

datatype subpass_ref = VK_SUBPASS_EXTERNAL | Subpass nat

definition VK_PIPELINE_STAGE_COLOR_ATTACHMENT_OUTPUT_BIT :: "32 word" where
  "VK_PIPELINE_STAGE_COLOR_ATTACHMENT_OUTPUT_BIT = 0x400"
definition VK_PIPELINE_STAGE_BOTTOM_OF_PIPE_BIT :: "32 word" where
  "VK_PIPELINE_STAGE_BOTTOM_OF_PIPE_BIT = 0x2000"
definition VK_ACCESS_COLOR_ATTACHMENT_READ_BIT :: "32 word" where
  "VK_ACCESS_COLOR_ATTACHMENT_READ_BIT = 0x80"
definition VK_ACCESS_COLOR_ATTACHMENT_WRITE_BIT :: "32 word" where
  "VK_ACCESS_COLOR_ATTACHMENT_WRITE_BIT = 0x100"
definition VK_ACCESS_MEMORY_READ_BIT :: "32 word" where
  "VK_ACCESS_MEMORY_READ_BIT = 0x8000"
definition VK_DEPENDENCY_BY_REGION_BIT :: "32 word" where
  "VK_DEPENDENCY_BY_REGION_BIT = 1"

record VkSubpassDependency =
  srcSubpass :: subpass_ref
  dstSubpass :: subpass_ref
  srcStageMask :: "32 word"
  dstStageMask :: "32 word"
  srcAccessMask :: "32 word"
  dstAccessMask :: "32 word"
  dependencyFlags :: "32 word"

text \<open>
  A subpass description: the pointers \<open>pColorAttachments\<close> and \<open>pResolveAttachments\<close>
  are read as arrays of \<open>colorAttachmentCount\<close> references, an absent pointer as
  \<open>None\<close> or the empty list (\<open>subpass = {}\<close> zeroes the input and preserve members).
\<close>

record VkSubpassDescription =
  colorAttachmentCount :: nat
  pColorAttachments :: "VkAttachmentReference list"
  pResolveAttachments :: "VkAttachmentReference list"
  pDepthStencilAttachment :: "VkAttachmentReference option"
  pInputAttachments :: "VkAttachmentReference list"
  pPreserveAttachments :: "nat list"

record VkRenderPassCreateInfo =
  attachmentCount :: nat
  pAttachments :: "VkAttachmentDescription list"
  subpassCount :: nat
  pSubpasses :: "VkSubpassDescription list"
  dependencyCount :: nat
  pDependencies :: "VkSubpassDependency list"

text \<open>
  \<open>setupRenderPass\<close>, as the argument of \<open>vkCreateRenderPass\<close>. The array elements are
  assigned member by member, in the order of the source.
\<close>

definition setupRenderPass :: "handle \<Rightarrow> handle \<Rightarrow> VkSampleCountFlags \<Rightarrow> VkRenderPassCreateInfo" where
  "setupRenderPass colorFormat depthFormat sampleCount =
     (let attachments = replicate 4 zeroAttachment;
          attachments = attachments[0 := (attachments ! 0)
            \<lparr>format := colorFormat, samples := sampleCount,
             loadOp := VK_ATTACHMENT_LOAD_OP_CLEAR,
             storeOp := VK_ATTACHMENT_STORE_OP_DONT_CARE,
             stencilLoadOp := VK_ATTACHMENT_LOAD_OP_DONT_CARE,
             stencilStoreOp := VK_ATTACHMENT_STORE_OP_DONT_CARE,
             initialLayout := VK_IMAGE_LAYOUT_UNDEFINED,
             finalLayout := VK_IMAGE_LAYOUT_COLOR_ATTACHMENT_OPTIMAL\<rparr>];
          attachments = attachments[1 := (attachments ! 1)
            \<lparr>format := colorFormat, samples := VK_SAMPLE_COUNT_1_BIT,
             loadOp := VK_ATTACHMENT_LOAD_OP_DONT_CARE,
             storeOp := VK_ATTACHMENT_STORE_OP_STORE,
             stencilLoadOp := VK_ATTACHMENT_LOAD_OP_DONT_CARE,
             stencilStoreOp := VK_ATTACHMENT_STORE_OP_DONT_CARE,
             initialLayout := VK_IMAGE_LAYOUT_UNDEFINED,
             finalLayout := VK_IMAGE_LAYOUT_PRESENT_SRC_KHR\<rparr>];
          attachments = attachments[2 := (attachments ! 2)
            \<lparr>format := depthFormat, samples := sampleCount,
             loadOp := VK_ATTACHMENT_LOAD_OP_CLEAR,
             storeOp := VK_ATTACHMENT_STORE_OP_DONT_CARE,
             stencilLoadOp := VK_ATTACHMENT_LOAD_OP_DONT_CARE,
             stencilStoreOp := VK_ATTACHMENT_STORE_OP_DONT_CARE,
             initialLayout := VK_IMAGE_LAYOUT_UNDEFINED,
             finalLayout := VK_IMAGE_LAYOUT_DEPTH_STENCIL_ATTACHMENT_OPTIMAL\<rparr>];
          attachments = attachments[3 := (attachments ! 3)
            \<lparr>format := depthFormat, samples := VK_SAMPLE_COUNT_1_BIT,
             loadOp := VK_ATTACHMENT_LOAD_OP_DONT_CARE,
             storeOp := VK_ATTACHMENT_STORE_OP_STORE,
             stencilLoadOp := VK_ATTACHMENT_LOAD_OP_DONT_CARE,
             stencilStoreOp := VK_ATTACHMENT_STORE_OP_DONT_CARE,
             initialLayout := VK_IMAGE_LAYOUT_UNDEFINED,
             finalLayout := VK_IMAGE_LAYOUT_DEPTH_STENCIL_ATTACHMENT_OPTIMAL\<rparr>];
          colorReference =
            \<lparr>attachment = 0, layout = VK_IMAGE_LAYOUT_COLOR_ATTACHMENT_OPTIMAL\<rparr>;
          depthReference =
            \<lparr>attachment = 2, layout = VK_IMAGE_LAYOUT_DEPTH_STENCIL_ATTACHMENT_OPTIMAL\<rparr>;
          resolveReference =
            \<lparr>attachment = 1, layout = VK_IMAGE_LAYOUT_COLOR_ATTACHMENT_OPTIMAL\<rparr>;
          subpass =
            \<lparr>colorAttachmentCount = 1,
             pColorAttachments = [colorReference],
             pResolveAttachments = [resolveReference],
             pDepthStencilAttachment = Some depthReference,
             pInputAttachments = [],
             pPreserveAttachments = []\<rparr>;
          dependencies =
            [\<lparr>srcSubpass = VK_SUBPASS_EXTERNAL, dstSubpass = Subpass 0,
              srcStageMask = VK_PIPELINE_STAGE_BOTTOM_OF_PIPE_BIT,
              dstStageMask = VK_PIPELINE_STAGE_COLOR_ATTACHMENT_OUTPUT_BIT,
              srcAccessMask = VK_ACCESS_MEMORY_READ_BIT,
              dstAccessMask =
                VK_ACCESS_COLOR_ATTACHMENT_READ_BIT OR VK_ACCESS_COLOR_ATTACHMENT_WRITE_BIT,
              dependencyFlags = VK_DEPENDENCY_BY_REGION_BIT\<rparr>,
             \<lparr>srcSubpass = Subpass 0, dstSubpass = VK_SUBPASS_EXTERNAL,
              srcStageMask = VK_PIPELINE_STAGE_COLOR_ATTACHMENT_OUTPUT_BIT,
              dstStageMask = VK_PIPELINE_STAGE_BOTTOM_OF_PIPE_BIT,
              srcAccessMask =
                VK_ACCESS_COLOR_ATTACHMENT_READ_BIT OR VK_ACCESS_COLOR_ATTACHMENT_WRITE_BIT,
              dstAccessMask = VK_ACCESS_MEMORY_READ_BIT,
              dependencyFlags = VK_DEPENDENCY_BY_REGION_BIT\<rparr>]
      in \<lparr>attachmentCount = length attachments,
          pAttachments = attachments,
          subpassCount = 1,
          pSubpasses = [subpass],
          dependencyCount = 2,
          pDependencies = dependencies\<rparr>)"

text \<open>
  The argument of one \<open>vkCreateFramebuffer\<close> call: \<open>pAttachments\<close> as the array
  stands when the call is made.
\<close>

record VkFramebufferCreateInfo =
  fb_renderPass :: handle
  fb_attachmentCount :: nat
  fb_pAttachments :: "handle list"
  fb_width :: nat
  fb_height :: nat
  fb_layers :: nat

text \<open>
  \<open>setupFrameBuffer\<close>. The array of four views starts with indeterminate contents
  (\<open>junk\<close>); \<open>swapViews\<close> are \<open>swapChain.buffers[i].view\<close> for each of the
  \<open>swapChain.imageCount\<close> images, \<open>depthStencilView\<close> is \<open>depthStencil.view\<close>. The
  loop stores the view of image \<open>i\<close> at index 1 and creates frame buffer \<open>i\<close>.
\<close>

definition frameBufferLoop ::
  "handle \<Rightarrow> nat \<Rightarrow> nat \<Rightarrow> handle list \<Rightarrow> handle list \<Rightarrow> VkFramebufferCreateInfo list" where
  "frameBufferLoop renderPass width height swapViews attachments =
     snd (fold (\<lambda>i (attachments, frameBuffers).
            (let attachments = attachments[1 := swapViews ! i]
             in (attachments,
                 frameBuffers @
                   [\<lparr>fb_renderPass = renderPass,
                     fb_attachmentCount = length attachments,
                     fb_pAttachments = attachments,
                     fb_width = width, fb_height = height, fb_layers = 1\<rparr>])))
          [0..<length swapViews] (attachments, []))"

definition setupFrameBuffer ::
  "limits \<Rightarrow> VkSampleCountFlags \<Rightarrow> handle \<Rightarrow> nat \<Rightarrow> nat \<Rightarrow> handle \<Rightarrow> handle \<Rightarrow> handle \<Rightarrow>
     handle list \<Rightarrow> handle \<Rightarrow> failure + VkFramebufferCreateInfo list" where
  "setupFrameBuffer lims sampleCount renderPass width height colorView depthView
       depthStencilView swapViews junk =
     (case setupMultisampleTarget lims sampleCount width height colorView depthView of
        Inl e \<Rightarrow> Inl e
      | Inr multisampleTarget \<Rightarrow>
          (let attachments = replicate 4 junk;
               attachments = attachments[0 := color_view multisampleTarget];
               attachments = attachments[2 := depth_view multisampleTarget];
               attachments = attachments[3 := depthStencilView]
           in Inr (frameBufferLoop renderPass width height swapViews attachments)))"

text \<open>
  Modelled from the spec: \<open>VulkanExampleBase::prepare\<close> is not in this file. The spec
  says that the render pass and the render target are created once at prepare time,
  through the hooks of the base class that this class overrides; the model keeps the
  calls of these two hooks, \<open>setupRenderPass\<close> and then \<open>setupFrameBuffer\<close>.
\<close>

definition VulkanExampleBase_prepare ::
  "limits \<Rightarrow> VkSampleCountFlags \<Rightarrow> handle \<Rightarrow> handle \<Rightarrow> handle \<Rightarrow> nat \<Rightarrow> nat \<Rightarrow>
     handle \<Rightarrow> handle \<Rightarrow> handle \<Rightarrow> handle list \<Rightarrow> handle \<Rightarrow>
     failure + (VkRenderPassCreateInfo \<times> VkFramebufferCreateInfo list)" where
  "VulkanExampleBase_prepare lims sampleCount colorFormat depthFormat renderPass width height
       colorView depthView depthStencilView swapViews junk =
     (let rp = setupRenderPass colorFormat depthFormat sampleCount
      in case setupFrameBuffer lims sampleCount renderPass width height colorView depthView
                depthStencilView swapViews junk of
           Inl e \<Rightarrow> Inl e
         | Inr fbs \<Rightarrow> Inr (rp, fbs))"

text \<open>
  \<open>prepare\<close>, up to the return of \<open>VulkanExampleBase::prepare\<close>: the sample count is
  assigned first, then the base class builds the render pass and the frame buffers with
  it. The calls that follow in \<open>prepare\<close> do not assign \<open>sampleCount\<close>. The result is
  the sample count with what was built from it.
\<close>

record FrameTargets =
  sampleCount :: VkSampleCountFlags
  renderPassInfo :: VkRenderPassCreateInfo
  frameBufferInfos :: "VkFramebufferCreateInfo list"

definition prepare_targets ::
  "limits \<Rightarrow> handle \<Rightarrow> handle \<Rightarrow> handle \<Rightarrow> nat \<Rightarrow> nat \<Rightarrow> handle \<Rightarrow> handle \<Rightarrow> handle \<Rightarrow>
     handle list \<Rightarrow> handle \<Rightarrow> failure + FrameTargets" where
  "prepare_targets lims colorFormat depthFormat renderPass width height colorView depthView
       depthStencilView swapViews junk =
     (let sampleCount = getMaxUsableSampleCount lims
      in case VulkanExampleBase_prepare lims sampleCount colorFormat depthFormat renderPass
                width height colorView depthView depthStencilView swapViews junk of
           Inl e \<Rightarrow> Inl e
         | Inr (rp, fbs) \<Rightarrow>
             Inr \<lparr>sampleCount = sampleCount, renderPassInfo = rp, frameBufferInfos = fbs\<rparr>)"

section \<open>Descriptor pool and descriptor sets\<close>

datatype VkDescriptorType =
  VK_DESCRIPTOR_TYPE_UNIFORM_BUFFER | VK_DESCRIPTOR_TYPE_COMBINED_IMAGE_SAMPLER

datatype VkShaderStage = VK_SHADER_STAGE_VERTEX_BIT | VK_SHADER_STAGE_FRAGMENT_BIT

definition DESCRIPTOR_COUNT :: nat where
  "DESCRIPTOR_COUNT = 4"

record VkDescriptorPoolCreateInfo =
  poolSizes :: "(VkDescriptorType \<times> nat) list"
  maxSets :: nat

definition setupDescriptorPool :: VkDescriptorPoolCreateInfo where
  "setupDescriptorPool =
     \<lparr>poolSizes = [(VK_DESCRIPTOR_TYPE_UNIFORM_BUFFER, DESCRIPTOR_COUNT),
                   (VK_DESCRIPTOR_TYPE_COMBINED_IMAGE_SAMPLER, DESCRIPTOR_COUNT)],
      maxSets = DESCRIPTOR_COUNT\<rparr>"

text \<open>The bindings of the one descriptor set layout: type, stage, binding number.\<close>

definition setLayoutBindings :: "(VkDescriptorType \<times> VkShaderStage \<times> nat) list" where
  "setLayoutBindings =
     [(VK_DESCRIPTOR_TYPE_UNIFORM_BUFFER, VK_SHADER_STAGE_VERTEX_BIT, 0),
      (VK_DESCRIPTOR_TYPE_COMBINED_IMAGE_SAMPLER, VK_SHADER_STAGE_FRAGMENT_BIT, 1)]"

text \<open>
  Modelled from the spec: the pool itself lives in the Vulkan driver. The spec says the
  pool has a budget of sets and of descriptors of each type, and that exceeding it is a
  fatal allocation failure. The pool keeps what is left of the budget and the sets it
  has handed out; a set handle is the number of the allocation, starting at 1 (0 is
  \<open>VK_NULL_HANDLE\<close>).
\<close>

record DescriptorPool =
  setsLeft :: nat
  uniformBuffersLeft :: nat
  imageSamplersLeft :: nat
  handedOut :: "handle list"

definition count_of :: "VkDescriptorType \<Rightarrow> (VkDescriptorType \<times> nat) list \<Rightarrow> nat" where
  "count_of t sizes = sum_list (map snd (filter (\<lambda>ps. fst ps = t) sizes))"

text \<open>
  Modelled from the spec: a new pool has the budget its create info asks for, the sum
  of the counts given for each descriptor type.
\<close>

definition vkCreateDescriptorPool :: "VkDescriptorPoolCreateInfo \<Rightarrow> DescriptorPool" where
  "vkCreateDescriptorPool info =
     \<lparr>setsLeft = maxSets info,
      uniformBuffersLeft = count_of VK_DESCRIPTOR_TYPE_UNIFORM_BUFFER (poolSizes info),
      imageSamplersLeft = count_of VK_DESCRIPTOR_TYPE_COMBINED_IMAGE_SAMPLER (poolSizes info),
      handedOut = []\<rparr>"

definition bindings_of :: "VkDescriptorType \<Rightarrow> (VkDescriptorType \<times> VkShaderStage \<times> nat) list \<Rightarrow> nat" where
  "bindings_of t bs = length (filter (\<lambda>b. fst b = t) bs)"

text \<open>
  Modelled from the spec: \<open>VK_CHECK_RESULT(vkAllocateDescriptorSets(...))\<close> for one set
  of the given layout. The set takes one set and one descriptor per binding out of the
  budget; when the budget does not suffice the call fails and \<open>VK_CHECK_RESULT\<close> stops
  the program.
\<close>

definition vkAllocateDescriptorSets ::
  "DescriptorPool \<Rightarrow> (VkDescriptorType \<times> VkShaderStage \<times> nat) list \<Rightarrow>
     failure + (handle \<times> DescriptorPool)" where
  "vkAllocateDescriptorSets pool bs =
     (if 1 \<le> setsLeft pool \<and>
         bindings_of VK_DESCRIPTOR_TYPE_UNIFORM_BUFFER bs \<le> uniformBuffersLeft pool \<and>
         bindings_of VK_DESCRIPTOR_TYPE_COMBINED_IMAGE_SAMPLER bs \<le> imageSamplersLeft pool
      then Inr (Suc (length (handedOut pool)),
             pool\<lparr>setsLeft := setsLeft pool - 1,
                  uniformBuffersLeft := uniformBuffersLeft pool
                    - bindings_of VK_DESCRIPTOR_TYPE_UNIFORM_BUFFER bs,
                  imageSamplersLeft := imageSamplersLeft pool
                    - bindings_of VK_DESCRIPTOR_TYPE_COMBINED_IMAGE_SAMPLER bs,
                  handedOut := handedOut pool @ [Suc (length (handedOut pool))]\<rparr>)
      else Inl VkCheckFailed)"

text \<open>The struct \<open>descriptorSets\<close> of the class: four members, none for the star field.\<close>

record DescriptorSets =
  instancedRocksVkDescrSet :: handle
  planetVkDescrSet :: handle
  lightVkDescrSet :: handle
  constructVkDescrSet :: handle

text \<open>The descriptors of the four textures, and one \<open>VkWriteDescriptorSet\<close>.\<close>

record Textures =
  rocksTex2DArr :: handle
  planetTex2D :: handle
  lightTex2D :: handle
  constructTex2D :: handle

record VkWriteDescriptorSet =
  dstSet :: handle
  descriptorType :: VkDescriptorType
  dstBinding :: nat
  resource :: handle

definition writeDescriptorSet ::
  "handle \<Rightarrow> VkDescriptorType \<Rightarrow> nat \<Rightarrow> handle \<Rightarrow> VkWriteDescriptorSet" where
  "writeDescriptorSet s t b r =
     \<lparr>dstSet = s, descriptorType = t, dstBinding = b, resource = r\<rparr>"

text \<open>
  \<open>setupDescriptorSet\<close>: four allocations in the order rocks, planet, light, construct,
  each followed by \<open>vkUpdateDescriptorSets\<close> with two writes. The result is the struct,
  the writes in the order they were made, and the pool afterwards.
\<close>

definition setupDescriptorSet ::
  "DescriptorPool \<Rightarrow> handle \<Rightarrow> Textures \<Rightarrow>
     failure + (DescriptorSets \<times> VkWriteDescriptorSet list \<times> DescriptorPool)" where
  "setupDescriptorSet descriptorPool sceneDescriptor textures =
     (case vkAllocateDescriptorSets descriptorPool setLayoutBindings of
        Inl e \<Rightarrow> Inl e
      | Inr (rocksSet, pool1) \<Rightarrow>
     (case vkAllocateDescriptorSets pool1 setLayoutBindings of
        Inl e \<Rightarrow> Inl e
      | Inr (planetSet, pool2) \<Rightarrow>
     (case vkAllocateDescriptorSets pool2 setLayoutBindings of
        Inl e \<Rightarrow> Inl e
      | Inr (lightSet, pool3) \<Rightarrow>
     (case vkAllocateDescriptorSets pool3 setLayoutBindings of
        Inl e \<Rightarrow> Inl e
      | Inr (constructSet, pool4) \<Rightarrow>
          Inr (\<lparr>instancedRocksVkDescrSet = rocksSet, planetVkDescrSet = planetSet,
                lightVkDescrSet = lightSet, constructVkDescrSet = constructSet\<rparr>,
               [writeDescriptorSet rocksSet VK_DESCRIPTOR_TYPE_UNIFORM_BUFFER 0 sceneDescriptor,
                writeDescriptorSet rocksSet VK_DESCRIPTOR_TYPE_COMBINED_IMAGE_SAMPLER 1
                  (rocksTex2DArr textures),
                writeDescriptorSet planetSet VK_DESCRIPTOR_TYPE_UNIFORM_BUFFER 0 sceneDescriptor,
                writeDescriptorSet planetSet VK_DESCRIPTOR_TYPE_COMBINED_IMAGE_SAMPLER 1
                  (planetTex2D textures),
                writeDescriptorSet lightSet VK_DESCRIPTOR_TYPE_UNIFORM_BUFFER 0 sceneDescriptor,
                writeDescriptorSet lightSet VK_DESCRIPTOR_TYPE_COMBINED_IMAGE_SAMPLER 1
                  (lightTex2D textures),
                writeDescriptorSet constructSet VK_DESCRIPTOR_TYPE_UNIFORM_BUFFER 0
                  sceneDescriptor,
                writeDescriptorSet constructSet VK_DESCRIPTOR_TYPE_COMBINED_IMAGE_SAMPLER 1
                  (constructTex2D textures)],
               pool4)))))"

section \<open>Command buffers (buildCommandBuffers)\<close>

definition VERTEX_BUFFER_BIND_ID :: nat where
  "VERTEX_BUFFER_BIND_ID = 0"

definition INSTANCE_BUFFER_BIND_ID :: nat where
  "INSTANCE_BUFFER_BIND_ID = 1"

text \<open>
  The commands the function records, with the arguments that vary:
  begin render pass (render pass, frame buffer, width, height, number of clear values),
  viewport and scissor (width, height),
  bind descriptor sets (layout, first set, sets),
  bind pipeline,
  bind vertex buffers (first binding, buffers, offsets),
  bind index buffer (buffer, offset),
  draw (vertex count, instance count, first vertex, first instance),
  draw indexed (index count, instance count, first index, vertex offset, first instance),
  end render pass.
\<close>

datatype cmd =
  CmdBeginRenderPass handle handle nat nat nat
| CmdSetViewport nat nat
| CmdSetScissor nat nat
| CmdBindDescriptorSets handle nat "handle list"
| CmdBindPipeline handle
| CmdBindVertexBuffers nat "handle list" "nat list"
| CmdBindIndexBuffer handle nat
| CmdDraw nat nat nat nat
| CmdDrawIndexed nat nat nat int nat
| CmdEndRenderPass

record Model =
  vertices_buffer :: handle
  indices_buffer :: handle
  indexCount :: nat

record Models =
  rockModel :: Model
  planetModel :: Model
  lightModel :: Model
  constructModel :: Model

record Pipelines =
  instancedRocksVkPipeline :: handle
  planetVkPipeline :: handle
  lightVkPipeline :: handle
  constructVkPipeline :: handle
  starfieldVkPipeline :: handle

text \<open>The members of the class that \<open>buildCommandBuffers\<close> reads and writes.\<close>

record VulkanExample =
  pipelines :: Pipelines
  descriptorSets :: DescriptorSets
  models :: Models
  pipelineLayout :: handle
  renderPass :: handle
  instanceBuffer_buffer :: handle
  frameBuffers :: "handle list"
  drawCmdBuffers :: "cmd list list"
  width :: nat
  height :: nat

text \<open>
  The commands recorded into \<open>drawCmdBuffers[i]\<close> between \<open>vkBeginCommandBuffer\<close>, which
  starts the buffer empty, and \<open>vkEndCommandBuffer\<close>.
\<close>

definition recordCommands :: "VulkanExample \<Rightarrow> nat \<Rightarrow> cmd list" where
  "recordCommands app i =
     (let offsets = [0] in
      [CmdBeginRenderPass (renderPass app) (frameBuffers app ! i) (width app) (height app) 3,
       CmdSetViewport (width app) (height app),
       CmdSetScissor (width app) (height app),

       CmdBindDescriptorSets (pipelineLayout app) 0 [planetVkDescrSet (descriptorSets app)],
       CmdBindPipeline (starfieldVkPipeline (pipelines app)),
       CmdDraw 4 1 0 0,

       CmdBindDescriptorSets (pipelineLayout app) 0 [planetVkDescrSet (descriptorSets app)],
       CmdBindPipeline (planetVkPipeline (pipelines app)),
       CmdBindVertexBuffers VERTEX_BUFFER_BIND_ID
         [vertices_buffer (planetModel (models app))] offsets,
       CmdBindIndexBuffer (indices_buffer (planetModel (models app))) 0,
       CmdDrawIndexed (indexCount (planetModel (models app))) 1 0 0 0,

       CmdBindDescriptorSets (pipelineLayout app) 0 [lightVkDescrSet (descriptorSets app)],
       CmdBindPipeline (lightVkPipeline (pipelines app)),
       CmdBindVertexBuffers VERTEX_BUFFER_BIND_ID
         [vertices_buffer (lightModel (models app))] offsets,
       CmdBindIndexBuffer (indices_buffer (lightModel (models app))) 0,
       CmdDrawIndexed (indexCount (lightModel (models app))) 1 0 0 0,

       CmdBindDescriptorSets (pipelineLayout app) 0 [constructVkDescrSet (descriptorSets app)],
       CmdBindPipeline (constructVkPipeline (pipelines app)),
       CmdBindVertexBuffers VERTEX_BUFFER_BIND_ID
         [vertices_buffer (constructModel (models app))] offsets,
       CmdBindIndexBuffer (indices_buffer (constructModel (models app))) 0,
       CmdDrawIndexed (indexCount (constructModel (models app))) 1 0 0 0,

       CmdBindDescriptorSets (pipelineLayout app) 0
         [instancedRocksVkDescrSet (descriptorSets app)],
       CmdBindPipeline (instancedRocksVkPipeline (pipelines app)),
       CmdBindVertexBuffers VERTEX_BUFFER_BIND_ID
         [vertices_buffer (rockModel (models app))] offsets,
       CmdBindVertexBuffers INSTANCE_BUFFER_BIND_ID [instanceBuffer_buffer app] offsets,
       CmdBindIndexBuffer (indices_buffer (rockModel (models app))) 0,
       CmdDrawIndexed (indexCount (rockModel (models app))) INSTANCE_COUNT 0 0 0,

       CmdEndRenderPass])"

text \<open>
  The loop over \<open>drawCmdBuffers\<close>. Reading \<open>frameBuffers[i]\<close> beyond the end of the
  vector has no defined behaviour in C++; the model stops with \<open>OutOfRange\<close> there.
\<close>

definition buildCommandBuffers :: "VulkanExample \<Rightarrow> failure + VulkanExample" where
  "buildCommandBuffers app =
     (if length (frameBuffers app) < length (drawCmdBuffers app) then Inl OutOfRange
      else Inr (app\<lparr>drawCmdBuffers :=
                  map (recordCommands app) [0..<length (drawCmdBuffers app)]\<rparr>))"

subsection \<open>Reading a recorded sequence\<close>

fun is_draw :: "cmd \<Rightarrow> bool" where
  "is_draw (CmdDraw _ _ _ _) = True"
| "is_draw (CmdDrawIndexed _ _ _ _ _) = True"
| "is_draw _ = False"

text \<open>
  The draw groups of a sequence: each group is the run of commands up to and including
  one draw call. Commands after the last draw call belong to no group.
\<close>

fun groups_acc :: "cmd list \<Rightarrow> cmd list \<Rightarrow> cmd list list" where
  "groups_acc acc [] = []"
| "groups_acc acc (c # cs) =
     (if is_draw c then (acc @ [c]) # groups_acc [] cs else groups_acc (acc @ [c]) cs)"

definition draw_groups :: "cmd list \<Rightarrow> cmd list list" where
  "draw_groups cs = groups_acc [] cs"

fun bound_pipelines :: "cmd list \<Rightarrow> handle list" where
  "bound_pipelines [] = []"
| "bound_pipelines (CmdBindPipeline p # cs) = p # bound_pipelines cs"
| "bound_pipelines (_ # cs) = bound_pipelines cs"

text \<open>Descriptor set bindings as (first set, sets).\<close>

fun bound_sets :: "cmd list \<Rightarrow> (nat \<times> handle list) list" where
  "bound_sets [] = []"
| "bound_sets (CmdBindDescriptorSets _ first sets # cs) = (first, sets) # bound_sets cs"
| "bound_sets (_ # cs) = bound_sets cs"

text \<open>Vertex buffer bindings as (binding slot, buffers).\<close>

fun bound_vertex_buffers :: "cmd list \<Rightarrow> (nat \<times> handle list) list" where
  "bound_vertex_buffers [] = []"
| "bound_vertex_buffers (CmdBindVertexBuffers b bufs _ # cs) = (b, bufs) # bound_vertex_buffers cs"
| "bound_vertex_buffers (_ # cs) = bound_vertex_buffers cs"

fun bound_index_buffers :: "cmd list \<Rightarrow> handle list" where
  "bound_index_buffers [] = []"
| "bound_index_buffers (CmdBindIndexBuffer b _ # cs) = b # bound_index_buffers cs"
| "bound_index_buffers (_ # cs) = bound_index_buffers cs"

section \<open>Light update (updateLight, updateUniformBuffer, render)\<close>

text \<open>
  Every number of this section is a \<open>float\<close>, and so is every operation; the integer
  macro \<open>LIGHT_INTENSITY\<close> is converted where it meets a \<open>float\<close>.
\<close>

definition LIGHT_INTENSITY :: real where
  "LIGHT_INTENSITY = 70"

text \<open>The operators of \<open>glm::vec3\<close>, which work member by member.\<close>

definition vadd :: "vec3 \<Rightarrow> vec3 \<Rightarrow> vec3" where
  "vadd a b =
     (f32 (fst a + fst b), f32 (fst (snd a) + fst (snd b)), f32 (snd (snd a) + snd (snd b)))"

definition vsub :: "vec3 \<Rightarrow> vec3 \<Rightarrow> vec3" where
  "vsub a b =
     (f32 (fst a - fst b), f32 (fst (snd a) - fst (snd b)), f32 (snd (snd a) - snd (snd b)))"

definition vneg :: "vec3 \<Rightarrow> vec3" where
  "vneg a = (- fst a, - fst (snd a), - snd (snd a))"

definition vscale :: "vec3 \<Rightarrow> real \<Rightarrow> vec3" where
  "vscale a c = (f32 (fst a * c), f32 (fst (snd a) * c), f32 (snd (snd a) * c))"

definition vdiv :: "vec3 \<Rightarrow> real \<Rightarrow> vec3" where
  "vdiv a c = (f32 (fst a / c), f32 (fst (snd a) / c), f32 (snd (snd a) / c))"

definition vdot :: "vec3 \<Rightarrow> vec3 \<Rightarrow> real" where
  "vdot a b =
     f32 (f32 (f32 (fst a * fst b) + f32 (fst (snd a) * fst (snd b))) +
          f32 (snd (snd a) * snd (snd b)))"

text \<open>
  \<open>glm::distance\<close> and \<open>glm::normalize\<close>, which the glm headers define as the length
  of the difference and as the product with the inverse square root of the dot product.
  Nothing proved below depends on the two.
\<close>

definition distance :: "vec3 \<Rightarrow> vec3 \<Rightarrow> real" where
  "distance a b = f32 (sqrt (vdot (vsub a b) (vsub a b)))"

definition normalize :: "vec3 \<Rightarrow> vec3" where
  "normalize v = vscale v (f32 (1 / f32 (sqrt (vdot v v))))"

text \<open>
  The function-local statics of \<open>updateLight\<close>; the source's \<open>pi\<close> is \<open>pi_light\<close>
  here.
\<close>

record LightStatics =
  G :: real
  mi :: real
  mp :: real
  pi_light :: vec3
  pp :: vec3
  vi :: vec3
  ai :: vec3
  fi :: vec3

definition initialStatics :: LightStatics where
  "initialStatics =
     \<lparr>G = f32 2.5, mi = 10, mp = 100, pi_light = (45, 0, 10), pp = (0, 0, 0),
      vi = (- 1, - f32 0.3, 1), ai = (0, 0, 0), fi = (0, 0, 0)\<rparr>"

text \<open>
  The members of \<open>uboVS\<close> that change from frame to frame. The matrices and \<open>camPos\<close>
  are written only under \<open>viewChanged\<close> and read by nothing in this file; they are left
  out.
\<close>

record UBOVS =
  lightPos :: "real \<times> real \<times> real \<times> real"
  lightInt :: real
  locSpeed :: real
  globSpeed :: real

definition initialUBOVS :: UBOVS where
  "initialUBOVS =
     \<lparr>lightPos = (f32 (f32 0.707 * 28), - 3, f32 (- f32 0.707 * 28), 1), lightInt = 0,
      locSpeed = 0, globSpeed = 0\<rparr>"

record FrameState =
  uboVS :: UBOVS
  statics :: LightStatics
  frameTimer :: real
  paused :: bool
  prepared :: bool

definition updateLight :: "FrameState \<Rightarrow> FrameState" where
  "updateLight st =
     (let s = statics st;
          r = distance (pi_light s) (pp s);
          dirVec = normalize (vsub (pi_light s) (pp s));
          s = s\<lparr>fi := vdiv (vscale (vscale (vscale (vneg dirVec) (G s)) (mp s)) (mi s))
                       (f32 (r * r))\<rparr>;
          s = s\<lparr>ai := vdiv (fi s) (mi s)\<rparr>;
          s = s\<lparr>vi := vadd (vi s) (vscale (ai s) (frameTimer st))\<rparr>;
          s = s\<lparr>pi_light := vadd (pi_light s) (vscale (vi s) (frameTimer st))\<rparr>;
          k = f32 (f32 0.25 * frameTimer st);
          u = uboVS st;
          u = u\<lparr>lightInt := f32 (f32 (LIGHT_INTENSITY * k) + f32 (lightInt u * f32 (1 - k)))\<rparr>;
          u = u\<lparr>lightPos := (fst (pi_light s), fst (snd (pi_light s)), snd (snd (pi_light s)), 1)\<rparr>
      in st\<lparr>statics := s, uboVS := u\<rparr>)"

text \<open>
  \<open>updateUniformBuffer\<close>: the branch under \<open>viewChanged\<close> writes only the members left
  out of \<open>UBOVS\<close>, so the argument does not show in the model.
\<close>

definition updateUniformBuffer :: "bool \<Rightarrow> FrameState \<Rightarrow> FrameState" where
  "updateUniformBuffer viewChanged st =
     (if \<not> paused st
      then updateLight
             (st\<lparr>uboVS := (uboVS st)
                   \<lparr>locSpeed := f32 (locSpeed (uboVS st) + f32 (frameTimer st * f32 0.35)),
                    globSpeed := f32 (globSpeed (uboVS st) + f32 (frameTimer st * f32 0.01))\<rparr>\<rparr>)
      else st)"

text \<open>
  \<open>render\<close>: the clamp of the frame time, the early return, \<open>draw\<close> (which changes
  nothing modelled here), and the update.
\<close>

definition render :: "FrameState \<Rightarrow> FrameState" where
  "render st =
     (let st = (if frameTimer st > f32 0.1 then st\<lparr>frameTimer := f32 0.1\<rparr> else st)
      in if \<not> prepared st then st
         else if \<not> paused st then updateUniformBuffer False st
         else st)"

text \<open>
  The state after \<open>n\<close> frames in which the shell leaves the frame time as it is, and
  the light intensity then.
\<close>

definition frames :: "nat \<Rightarrow> FrameState \<Rightarrow> FrameState" where
  "frames n st = (render ^^ n) st"

definition intensity :: "FrameState \<Rightarrow> real" where
  "intensity st = lightInt (uboVS st)"

definition initialState :: "real \<Rightarrow> FrameState" where
  "initialState dt =
     \<lparr>uboVS = initialUBOVS, statics = initialStatics, frameTimer = dt, paused = False,
      prepared = True\<rparr>"

text \<open>
  The value line 896 assigns to \<open>uboVS.lightInt\<close>, as a function of the frame time and
  of the value before; and a running state at the largest frame time the clamp lets
  through, \<open>0.1f\<close>, in which the intensity is \<open>9175029 / 2\<^sup>1\<^sup>7\<close>, about 69.99992.
\<close>

definition smoothed :: "real \<Rightarrow> real \<Rightarrow> real" where
  "smoothed dt x =
     (let k = f32 (f32 0.25 * dt)
      in f32 (f32 (LIGHT_INTENSITY * k) + f32 (x * f32 (1 - k))))"

definition stalledState :: FrameState where
  "stalledState =
     (initialState (f32 0.1))\<lparr>uboVS := initialUBOVS\<lparr>lightInt := 9175029 / 131072\<rparr>\<rparr>"

section \<open>Example values\<close>

text \<open>
  An application state with pairwise different handles, two swap chain images and
  a window of 1280 by 720; device limits with 1, 2, 4 and 8 samples for
  colour and 1, 2 and 4 for depth.
\<close>

definition example_app :: VulkanExample where
  "example_app =
     \<lparr>pipelines = \<lparr>instancedRocksVkPipeline = 11, planetVkPipeline = 12,
                    lightVkPipeline = 13, constructVkPipeline = 14,
                    starfieldVkPipeline = 15\<rparr>,
      descriptorSets = \<lparr>instancedRocksVkDescrSet = 1, planetVkDescrSet = 2,
                         lightVkDescrSet = 3, constructVkDescrSet = 4\<rparr>,
      models = \<lparr>rockModel = \<lparr>vertices_buffer = 21, indices_buffer = 22, indexCount = 300\<rparr>,
                 planetModel = \<lparr>vertices_buffer = 23, indices_buffer = 24, indexCount = 600\<rparr>,
                 lightModel = \<lparr>vertices_buffer = 25, indices_buffer = 26, indexCount = 90\<rparr>,
                 constructModel =
                   \<lparr>vertices_buffer = 27, indices_buffer = 28, indexCount = 1200\<rparr>\<rparr>,
      pipelineLayout = 31,
      renderPass = 32,
      instanceBuffer_buffer = 33,
      frameBuffers = [41, 42],
      drawCmdBuffers = [[], []],
      width = 1280,
      height = 720\<rparr>"

definition example_limits :: limits where
  "example_limits =
     \<lparr>framebufferColorSampleCounts = 15, framebufferDepthSampleCounts = 7\<rparr>"

section \<open>Properties of the rounding\<close>

lemma pow2_pos [simp]: "0 < pow2 e"
  by (simp add: pow2_def)

lemma pow2_nz [simp]: "pow2 e \<noteq> 0"
  by (simp add: pow2_def)

lemma pow2_nonneg [simp]: "0 \<le> pow2 e"
  by (simp add: pow2_def)

lemma pow2_add: "pow2 (a + b) = pow2 a * pow2 b"
  by (simp add: pow2_def powr_add)

lemma pow2_0 [simp]: "pow2 0 = 1"
  by (simp add: pow2_def)

lemma pow2_nat: "pow2 (int n) = 2 ^ n"
  by (simp add: pow2_def powr_realpow)

lemma pow2_mono: "a \<le> b \<Longrightarrow> pow2 a \<le> pow2 b"
  by (simp add: pow2_def)

lemma pow2_less: "a < b \<Longrightarrow> pow2 a < pow2 b"
  by (simp add: pow2_def)

lemma pow2_1 [simp]: "pow2 1 = 2"
  by (simp add: pow2_def)

lemma pow2_Suc: "pow2 (e + 1) = 2 * pow2 e"
  by (simp add: pow2_add)

lemma log_pow2: "log 2 (pow2 e) = of_int e"
  by (simp add: pow2_def)

lemma round_even_of_int [simp]: "round_even (of_int n) = n"
  by (simp add: round_even_def)

lemma round_even_0 [simp]: "round_even 0 = 0"
  using round_even_of_int [of 0] by simp

lemma round_even_pow [simp]: "round_even (2 ^ n) = 2 ^ n"
  using round_even_of_int [of "2 ^ n"] by simp

lemma round_even_bounds:
  "\<lfloor>q\<rfloor> \<le> round_even q" "round_even q \<le> \<lfloor>q\<rfloor> + 1"
  by (simp_all add: round_even_def)

lemma round_even_error: "\<bar>of_int (round_even q) - q\<bar> \<le> 1 / 2"
  unfolding round_even_def by (auto split: if_splits)

lemma round_even_mono:
  assumes "q \<le> q'"
  shows "round_even q \<le> round_even q'"
proof (cases "\<lfloor>q\<rfloor> = \<lfloor>q'\<rfloor>")
  case True
  with assms have "q - of_int \<lfloor>q\<rfloor> \<le> q' - of_int \<lfloor>q'\<rfloor>" by simp
  with True show ?thesis unfolding round_even_def by (auto split: if_splits)
next
  case False
  with assms have "\<lfloor>q\<rfloor> < \<lfloor>q'\<rfloor>" by (simp add: floor_mono order.strict_iff_order)
  then have "\<lfloor>q\<rfloor> + 1 \<le> \<lfloor>q'\<rfloor>" by simp
  with round_even_bounds(2) [of q] round_even_bounds(1) [of q'] show ?thesis by linarith
qed

text \<open>The binade of a positive number.\<close>

lemma floor_log_eq:
  assumes "pow2 e \<le> x" and "x < pow2 (e + 1)"
  shows "\<lfloor>log 2 x\<rfloor> = e"
proof -
  have x: "0 < x" using assms(1) pow2_pos [of e] by linarith
  from assms(1) x have "log 2 (pow2 e) \<le> log 2 x" by (simp add: log_le_cancel_iff)
  then have lo: "of_int e \<le> log 2 x" by (simp add: log_pow2)
  from assms(2) x have "log 2 x < log 2 (pow2 (e + 1))" by (simp add: log_less_cancel_iff)
  then have hi: "log 2 x < of_int e + 1" by (simp add: log_pow2)
  from lo hi show ?thesis by (simp add: floor_unique)
qed

lemma binade:
  assumes "0 < x"
  shows "pow2 \<lfloor>log 2 x\<rfloor> \<le> x" and "x < pow2 (\<lfloor>log 2 x\<rfloor> + 1)"
proof -
  have "pow2 \<lfloor>log 2 x\<rfloor> = 2 powr of_int \<lfloor>log 2 x\<rfloor>" by (simp add: pow2_def)
  also have "\<dots> \<le> 2 powr log 2 x" by (simp add: powr_le_cancel_iff)
  also from assms have "\<dots> = x" by simp
  finally show "pow2 \<lfloor>log 2 x\<rfloor> \<le> x" .
  from assms have "x = 2 powr log 2 x" by simp
  also have "\<dots> < 2 powr of_int (\<lfloor>log 2 x\<rfloor> + 1)"
    by (simp only: powr_less_cancel_iff) linarith
  finally show "x < pow2 (\<lfloor>log 2 x\<rfloor> + 1)" by (simp add: pow2_def)
qed

lemma pow2_neg: "pow2 (- int n) = 1 / 2 ^ n"
  by (simp add: pow2_def powr_minus powr_realpow divide_inverse)

lemma pow2_numeral [simp]: "pow2 (numeral n) = 2 ^ numeral n"
  using pow2_nat [of "numeral n"] by simp

lemma pow2_neg_numeral [simp]: "pow2 (- numeral n) = 1 / 2 ^ numeral n"
  using pow2_neg [of "numeral n"] by simp

lemma pow2_m1 [simp]: "pow2 (- 1) = 1 / 2"
  using pow2_neg [of 1] by simp

lemma pow2_le_iff: "pow2 a \<le> pow2 b \<longleftrightarrow> a \<le> b"
  by (simp add: pow2_def)

text \<open>Rounding in a binade of the normal range, and below the normal range.\<close>

lemma fl_normal:
  assumes "pow2 e \<le> x" and "x < pow2 (e + 1)" and "emin \<le> e"
  shows "fl p emin x = of_int (round_even (x / pow2 (e - int p + 1))) * pow2 (e - int p + 1)"
proof -
  have x: "0 < x" using assms(1) pow2_pos [of e] by linarith
  from assms have "\<lfloor>log 2 \<bar>x\<bar>\<rfloor> = e" using x by (simp add: floor_log_eq)
  with assms(3) have "ulp_exp p emin x = e - int p + 1" by (simp add: ulp_exp_def)
  with x show ?thesis by (simp add: fl_def)
qed

lemma fl_subnormal:
  assumes "0 < x" and "x < pow2 emin"
  shows "fl p emin x =
     of_int (round_even (x / pow2 (emin - int p + 1))) * pow2 (emin - int p + 1)"
proof -
  from binade(1) [OF assms(1)] assms(2) have "pow2 \<lfloor>log 2 x\<rfloor> < pow2 emin" by linarith
  then have "\<lfloor>log 2 x\<rfloor> < emin" by (simp add: pow2_def)
  with assms(1) have "ulp_exp p emin x = emin - int p + 1" by (simp add: ulp_exp_def)
  with assms(1) show ?thesis by (simp add: fl_def)
qed

lemma fl_0 [simp]: "fl p emin 0 = 0"
  by (simp add: fl_def)

lemma pow2_split: "0 < p \<Longrightarrow> pow2 e = of_int (2 ^ (p - 1)) * pow2 (e - int p + 1)"
proof -
  assume "0 < p"
  then obtain n where p: "p = Suc n" by (cases p) simp_all
  show ?thesis using pow2_add [of "int n" "e - int p + 1"] by (simp add: p pow2_nat)
qed

lemma pow2_split_top: "pow2 (e + 1) = of_int (2 ^ p) * pow2 (e - int p + 1)"
  using pow2_add [of "int p" "e - int p + 1"] by (simp add: pow2_nat)

lemma fl_normal_bounds:
  assumes "pow2 e \<le> x" and "x < pow2 (e + 1)" and "emin \<le> e" and "0 < p"
  shows "pow2 e \<le> fl p emin x" and "fl p emin x \<le> pow2 (e + 1)"
proof -
  let ?u = "pow2 (e - int p + 1)"
  note lo = pow2_split [OF assms(4), of e]
  note hi = pow2_split_top [of e p]
  from assms(1) have "of_int (2 ^ (p - 1)) \<le> x / ?u" by (simp add: lo pos_le_divide_eq)
  then have "round_even (of_int (2 ^ (p - 1))) \<le> round_even (x / ?u)" by (rule round_even_mono)
  then have "of_int (2 ^ (p - 1)) * ?u \<le> of_int (round_even (x / ?u)) * ?u" by simp
  then show "pow2 e \<le> fl p emin x" by (simp only: lo [symmetric] fl_normal [OF assms(1,2,3)])
  from assms(2) have "x / ?u \<le> of_int (2 ^ p)" by (simp add: hi pos_divide_le_eq)
  then have "round_even (x / ?u) \<le> round_even (of_int (2 ^ p))" by (rule round_even_mono)
  then have "of_int (round_even (x / ?u)) * ?u \<le> of_int (2 ^ p) * ?u" by simp
  then show "fl p emin x \<le> pow2 (e + 1)" by (simp only: hi [symmetric] fl_normal [OF assms(1,2,3)])
qed

lemma fl_subnormal_bounds:
  assumes "0 < x" and "x < pow2 emin" and "0 < p"
  shows "0 \<le> fl p emin x" and "fl p emin x \<le> pow2 emin"
proof -
  let ?u = "pow2 (emin - int p + 1)"
  note hi = pow2_split [OF assms(3), of emin]
  from assms(1) have "of_int 0 \<le> x / ?u" by simp
  then have "round_even (of_int 0) \<le> round_even (x / ?u)" by (rule round_even_mono)
  then have "0 \<le> of_int (round_even (x / ?u)) * ?u" by simp
  then show "0 \<le> fl p emin x" by (simp only: fl_subnormal [OF assms(1,2)])
  from assms(2) have "x / ?u \<le> of_int (2 ^ (p - 1))" by (simp add: hi pos_divide_le_eq)
  then have "round_even (x / ?u) \<le> round_even (of_int (2 ^ (p - 1)))" by (rule round_even_mono)
  then have "of_int (round_even (x / ?u)) * ?u \<le> of_int (2 ^ (p - 1)) * ?u" by simp
  then show "fl p emin x \<le> pow2 emin" by (simp only: hi [symmetric] fl_subnormal [OF assms(1,2)])
qed

lemma fl_nonneg:
  assumes "0 \<le> x" "0 < p"
  shows "0 \<le> fl p emin x"
proof (cases "x = 0")
  case True then show ?thesis by simp
next
  case False
  with assms have x: "0 < x" by simp
  show ?thesis
  proof (cases "x < pow2 emin")
    case True
    from x True assms(2) show ?thesis by (rule fl_subnormal_bounds)
  next
    case False
    then have "pow2 emin \<le> x" by simp
    with binade(2) [OF x] have "pow2 emin < pow2 (\<lfloor>log 2 x\<rfloor> + 1)" by linarith
    then have "emin \<le> \<lfloor>log 2 x\<rfloor>" by (simp add: pow2_def)
    with binade [OF x] have "pow2 \<lfloor>log 2 x\<rfloor> \<le> fl p emin x"
      using assms(2) by (intro fl_normal_bounds)
    with pow2_pos [of "\<lfloor>log 2 x\<rfloor>"] show ?thesis by linarith
  qed
qed

text \<open>Rounding is monotone on the non-negative numbers.\<close>

lemma fl_unit:
  assumes "0 < x"
  shows "fl p emin x = of_int (round_even (x / pow2 (ulp_exp p emin x))) * pow2 (ulp_exp p emin x)"
  using assms by (simp add: fl_def)

lemma fl_le_next:
  assumes "0 < x" "0 < p"
  shows "fl p emin x \<le> pow2 (max \<lfloor>log 2 x\<rfloor> emin + 1)"
proof (cases "x < pow2 emin")
  case True
  with assms have "fl p emin x \<le> pow2 emin" by (intro fl_subnormal_bounds)
  also have "\<dots> \<le> pow2 (max \<lfloor>log 2 x\<rfloor> emin + 1)" by (intro pow2_mono) simp
  finally show ?thesis .
next
  case False
  then have "pow2 emin \<le> x" by simp
  with binade(2) [OF assms(1)] have "pow2 emin < pow2 (\<lfloor>log 2 x\<rfloor> + 1)" by linarith
  then have e: "emin \<le> \<lfloor>log 2 x\<rfloor>" by (simp add: pow2_def)
  with binade [OF assms(1)] have "fl p emin x \<le> pow2 (\<lfloor>log 2 x\<rfloor> + 1)"
    using assms(2) by (intro fl_normal_bounds)
  with e show ?thesis by (simp add: max_def)
qed

lemma fl_mono:
  assumes "0 \<le> x" "x \<le> y" "0 < p"
  shows "fl p emin x \<le> fl p emin y"
proof (cases "x = 0")
  case True
  from assms have "0 \<le> y" by simp
  then have "0 \<le> fl p emin y" using assms(3) by (rule fl_nonneg)
  with True show ?thesis by simp
next
  case False
  with assms have x: "0 < x" and y: "0 < y" by simp_all
  let ?ex = "max \<lfloor>log 2 x\<rfloor> emin" and ?ey = "max \<lfloor>log 2 y\<rfloor> emin"
  from x assms(2) have "log 2 x \<le> log 2 y" by (simp add: log_le_cancel_iff)
  then have "\<lfloor>log 2 x\<rfloor> \<le> \<lfloor>log 2 y\<rfloor>" by (rule floor_mono)
  then have le: "?ex \<le> ?ey" by simp
  show ?thesis
  proof (cases "?ex = ?ey")
    case True
    then have ue: "ulp_exp p emin y = ulp_exp p emin x" using x y by (simp add: ulp_exp_def)
    let ?u = "pow2 (ulp_exp p emin x)"
    from assms(2) have "x / ?u \<le> y / ?u" by (rule divide_right_mono) simp
    then have "round_even (x / ?u) \<le> round_even (y / ?u)" by (rule round_even_mono)
    then have "of_int (round_even (x / ?u)) * ?u \<le> of_int (round_even (y / ?u)) * ?u" by simp
    then show ?thesis by (simp only: fl_unit [OF x] fl_unit [OF y] ue)
  next
    case False
    with le have lt: "?ex + 1 \<le> ?ey" by simp
    then have "pow2 (?ex + 1) \<le> pow2 ?ey" by (rule pow2_mono)
    moreover from x assms(3) have "fl p emin x \<le> pow2 (?ex + 1)" by (rule fl_le_next)
    moreover have "pow2 ?ey \<le> fl p emin y"
    proof -
      from lt have e: "emin \<le> \<lfloor>log 2 y\<rfloor>" "?ey = \<lfloor>log 2 y\<rfloor>" by (simp_all add: max_def split: if_splits)
      from binade [OF y] e(1) assms(3) have "pow2 \<lfloor>log 2 y\<rfloor> \<le> fl p emin y"
        by (rule fl_normal_bounds)
      with e(2) show ?thesis by simp
    qed
    ultimately show ?thesis by linarith
  qed
qed

text \<open>
  A number \<open>m * 2 ^ k\<close> with \<open>0 < m \<le> 2 ^ p\<close> and \<open>k\<close> not below the exponent of the
  smallest positive value is not changed by rounding.
\<close>

lemma fl_exact:
  assumes "0 < m" and "m \<le> 2 ^ p" and "0 < p" and "emin - int p + 1 \<le> k"
  shows "fl p emin (of_int m * pow2 k) = of_int m * pow2 k"
proof -
  define x where "x = of_int m * pow2 k"
  define e where "e = \<lfloor>log 2 x\<rfloor>"
  define v where "v = ulp_exp p emin x"
  define u where "u = pow2 v"
  have x: "0 < x" using assms(1) by (simp add: x_def)
  have u: "0 < u" by (simp add: u_def)
  have v: "v = max e emin - int p + 1" using x by (simp add: v_def e_def ulp_exp_def)
  have bin: "pow2 e \<le> x" "x < pow2 (e + 1)" unfolding e_def using x by (rule binade)+
  have flx: "fl p emin x = of_int (round_even (x / u)) * u"
    unfolding u_def v_def using x by (rule fl_unit)
  have "x \<le> of_int (2 ^ p) * pow2 k"
    unfolding x_def using assms(2) by (intro mult_right_mono) simp_all
  also have "\<dots> = pow2 (int p + k)" by (simp add: pow2_add pow2_nat)
  finally have top: "x \<le> pow2 (int p + k)" .
  with bin(1) have "pow2 e \<le> pow2 (int p + k)" by linarith
  then have le: "e \<le> int p + k" by (simp add: pow2_def)
  have "\<exists>j. x / u = of_int j"
  proof (cases "e = int p + k")
    case True
    with assms(4) have ve: "v = e - int p + 1" by (simp add: v)
    from True bin(1) top have "x = pow2 (int p + k)" by simp
    moreover have "pow2 (int p + k) = pow2 (int p - 1) * u"
      unfolding u_def ve True using pow2_add [of "int p - 1" "int p + k - int p + 1"] by simp
    ultimately have "x / u = pow2 (int p - 1)" using u by simp
    moreover from assms(3) have "pow2 (int p - 1) = of_int (2 ^ (p - 1))"
      using pow2_nat [of "p - 1"] by (simp add: of_nat_diff)
    ultimately have "x / u = of_int (2 ^ (p - 1))" by (simp only:)
    then show ?thesis by (rule exI)
  next
    case False
    with le assms(4) have "0 \<le> k - v" by (simp add: v)
    then obtain n where n: "k - v = int n" using nonneg_int_cases by blast
    then have "k = int n + v" by simp
    then have "pow2 k = 2 ^ n * u" unfolding u_def
      using pow2_add [of "int n" v] by (simp add: pow2_nat)
    then have "x / u = of_int (m * 2 ^ n)" using u by (simp add: x_def)
    then show ?thesis by (rule exI)
  qed
  then obtain j where j: "x / u = of_int j" by blast
  have "fl p emin x = of_int (round_even (of_int j)) * u" by (simp only: flx j)
  also have "\<dots> = (x / u) * u" by (simp only: round_even_of_int j)
  also have "\<dots> = x" using u by simp
  finally show ?thesis by (simp only: x_def)
qed

text \<open>
  The error of rounding is at most half a unit in the last place: relative to the number
  in the normal range, absolute below it.
\<close>

lemma fl_error:
  assumes "0 \<le> x" and "0 < p"
  shows "\<bar>fl p emin x - x\<bar> \<le> x * pow2 (- int p) + pow2 (emin - int p)"
proof (cases "x = 0")
  case True
  then show ?thesis by simp
next
  case False
  with assms have x: "0 < x" by simp
  define e where "e = max \<lfloor>log 2 x\<rfloor> emin"
  define u where "u = pow2 (e - int p + 1)"
  have u: "0 < u" by (simp add: u_def)
  have flx: "fl p emin x = of_int (round_even (x / u)) * u"
    using fl_unit [OF x, of p emin] x by (simp add: u_def e_def ulp_exp_def)
  have "fl p emin x - x = (of_int (round_even (x / u)) - x / u) * u"
    using u by (simp add: flx algebra_simps)
  then have "\<bar>fl p emin x - x\<bar> = \<bar>of_int (round_even (x / u)) - x / u\<bar> * u"
    using u by (simp add: abs_mult)
  also have "\<dots> \<le> (1 / 2) * u"
    using round_even_error [of "x / u"] u by (intro mult_right_mono) simp_all
  also have "(1 / 2) * u = pow2 e * pow2 (- int p)"
    unfolding u_def using pow2_add [of "e - int p" 1] pow2_add [of e "- int p"] by simp
  also have "\<dots> \<le> x * pow2 (- int p) + pow2 (emin - int p)"
  proof (cases "emin \<le> \<lfloor>log 2 x\<rfloor>")
    case True
    then have "e = \<lfloor>log 2 x\<rfloor>" by (simp add: e_def)
    with binade(1) [OF x] have "pow2 e * pow2 (- int p) \<le> x * pow2 (- int p)"
      by (intro mult_right_mono) simp_all
    then show ?thesis using pow2_pos [of "emin - int p"] by linarith
  next
    case False
    then have "e = emin" by (simp add: e_def)
    then have "pow2 e * pow2 (- int p) = pow2 (emin - int p)"
      using pow2_add [of emin "- int p"] by simp
    moreover from x have "0 \<le> x * pow2 (- int p)" by simp
    ultimately show ?thesis by linarith
  qed
  finally show ?thesis .
qed

text \<open>A positive value of the format is \<open>m * 2 ^ k\<close> with \<open>0 < m \<le> 2 ^ p\<close>.\<close>

lemma fl_repr:
  assumes "0 < x" and "fl p emin x = x" and "0 < p"
  shows "\<exists>m k. 0 < m \<and> m \<le> 2 ^ p \<and> emin - int p + 1 \<le> k \<and> x = of_int m * pow2 k"
proof -
  define e where "e = max \<lfloor>log 2 x\<rfloor> emin"
  define k where "k = e - int p + 1"
  define m where "m = round_even (x / pow2 k)"
  have flx: "fl p emin x = of_int m * pow2 k"
    using fl_unit [OF assms(1), of p emin] assms(1) by (simp add: m_def k_def e_def ulp_exp_def)
  with assms(2) have xm: "x = of_int m * pow2 k" by simp
  with assms(1) have "0 < real_of_int m * pow2 k" by simp
  then have "0 < real_of_int m" using pow2_pos [of k] by (rule zero_less_mult_pos2)
  then have m0: "0 < m" by simp
  have "x < pow2 (e + 1)"
  proof -
    have "\<lfloor>log 2 x\<rfloor> + 1 \<le> e + 1" by (simp add: e_def)
    then have "pow2 (\<lfloor>log 2 x\<rfloor> + 1) \<le> pow2 (e + 1)" by (rule pow2_mono)
    with binade(2) [OF assms(1)] show ?thesis by linarith
  qed
  also have "pow2 (e + 1) = of_int (2 ^ p) * pow2 k"
    unfolding k_def by (rule pow2_split_top)
  finally have "of_int m * pow2 k < of_int (2 ^ p) * pow2 k" by (simp only: xm [symmetric])
  then have "(of_int m :: real) < of_int (2 ^ p)" by (simp only: mult_less_cancel_right_pos pow2_pos)
  then have "m < 2 ^ p" by (simp only: of_int_less_iff)
  moreover have "emin - int p + 1 \<le> k" by (simp add: k_def e_def)
  ultimately show ?thesis using m0 xm by (intro exI [of _ m] exI [of _ k] conjI) simp_all
qed

text \<open>A non-negative value of a format is a value of every wider format.\<close>

lemma fl_widen:
  assumes "0 \<le> x" and "fl p emin x = x" and "0 < p" and "p \<le> q"
    and "emin' - int q \<le> emin - int p"
  shows "fl q emin' x = x"
proof (cases "x = 0")
  case True
  then show ?thesis by simp
next
  case False
  with assms(1) have "0 < x" by simp
  from fl_repr [OF this assms(2,3)] obtain m k where
    m: "0 < m" "m \<le> 2 ^ p" and k: "emin - int p + 1 \<le> k" and x: "x = of_int m * pow2 k"
    by blast
  from assms(4) have "(2::int) ^ p \<le> 2 ^ q" by (simp add: power_increasing)
  with m(2) have "m \<le> 2 ^ q" by linarith
  moreover from assms(3,4) have "0 < q" by simp
  moreover from k assms(5) have "emin' - int q + 1 \<le> k" by linarith
  ultimately show ?thesis unfolding x using m(1) by (intro fl_exact)
qed

lemma f32_f64:
  assumes "0 \<le> x" and "f32 x = x"
  shows "f64 x = x"
proof -
  from assms(2) have "fl 24 (- 126) x = x" by (simp only: f32_def)
  with assms(1) have "fl 53 (- 1022) x = x" by (rule fl_widen) simp_all
  then show ?thesis by (simp only: f64_def)
qed

lemma f32_mono: "0 \<le> x \<Longrightarrow> x \<le> y \<Longrightarrow> f32 x \<le> f32 y"
  unfolding f32_def by (rule fl_mono) simp_all

lemma f64_mono: "0 \<le> x \<Longrightarrow> x \<le> y \<Longrightarrow> f64 x \<le> f64 y"
  unfolding f64_def by (rule fl_mono) simp_all

lemma f32_nonneg: "0 \<le> x \<Longrightarrow> 0 \<le> f32 x"
  unfolding f32_def by (rule fl_nonneg) simp_all

lemma f64_nonneg: "0 \<le> x \<Longrightarrow> 0 \<le> f64 x"
  unfolding f64_def by (rule fl_nonneg) simp_all

lemma f32_0 [simp]: "f32 0 = 0"
  by (simp add: f32_def)

lemma f64_0 [simp]: "f64 0 = 0"
  by (simp add: f64_def)

text \<open>Integers of at most 24 bits are values of both formats.\<close>

lemma f32_int: "0 \<le> m \<Longrightarrow> m \<le> 2 ^ 24 \<Longrightarrow> f32 (of_int m) = of_int m"
  using fl_exact [where m = m and p = 24 and k = 0 and emin = "- 126"] by (cases "m = 0") (simp_all add: f32_def)

lemma f64_int: "0 \<le> m \<Longrightarrow> m \<le> 2 ^ 53 \<Longrightarrow> f64 (of_int m) = of_int m"
  using fl_exact [where m = m and p = 53 and k = 0 and emin = "- 1022"] by (cases "m = 0") (simp_all add: f64_def)

lemma f32_ratio:
  "0 < m \<Longrightarrow> m \<le> 2 ^ 24 \<Longrightarrow> n \<le> 149 \<Longrightarrow> f32 (of_int m / 2 ^ n) = of_int m / 2 ^ n"
  using fl_exact [where m = m and p = 24 and k = "- int n" and emin = "- 126"] by (simp add: f32_def pow2_neg)

lemma f64_ratio:
  "0 < m \<Longrightarrow> m \<le> 2 ^ 53 \<Longrightarrow> n \<le> 1074 \<Longrightarrow> f64 (of_int m / 2 ^ n) = of_int m / 2 ^ n"
  using fl_exact [where m = m and p = 53 and k = "- int n" and emin = "- 1022"] by (simp add: f64_def pow2_neg)

text \<open>The largest \<open>float\<close> below 1 is \<open>1 - 2\<^sup>-\<^sup>2\<^sup>4\<close>.\<close>

lemma f32_below_one:
  assumes "f32 u = u" and "u < 1"
  shows "u \<le> 1 - 1 / 2 ^ 24"
proof (cases "u < 1 / 2")
  case True
  then show ?thesis by simp
next
  case False
  then have b: "pow2 (- 1) \<le> u" "u < pow2 (- 1 + 1)" using assms(2) by simp_all
  have "fl 24 (- 126) u =
      of_int (round_even (u / pow2 (- 1 - int 24 + 1))) * pow2 (- 1 - int 24 + 1)"
    using b by (rule fl_normal) simp
  with assms(1) have u: "u = of_int (round_even (u * 2 ^ 24)) / 2 ^ 24"
    by (simp add: f32_def)
  define n where "n = round_even (u * 2 ^ 24)"
  from u have un: "u = of_int n / 2 ^ 24" by (simp add: n_def)
  with assms(2) have "(of_int n :: real) < 2 ^ 24" by simp
  then have "(of_int n :: real) < of_int (2 ^ 24)" by simp
  then have "n < 2 ^ 24" by (simp only: of_int_less_iff)
  then have "n \<le> 2 ^ 24 - 1" by simp
  then have "(of_int n :: real) \<le> of_int (2 ^ 24 - 1)" by (simp only: of_int_le_iff)
  then have "(of_int n :: real) / 2 ^ 24 \<le> (2 ^ 24 - 1) / 2 ^ 24"
    by (intro divide_right_mono) simp_all
  with un show ?thesis by (simp add: field_simps)
qed

text \<open>Rounding within a binade of the normal range, for the evaluation at a number.\<close>

lemma f32_normal:
  assumes "pow2 e \<le> x" and "x < pow2 (e + 1)" and "- 126 \<le> e"
  shows "f32 x = of_int (round_even (x / pow2 (e - 23))) * pow2 (e - 23)"
  using fl_normal [OF assms, of 24] by (simp add: f32_def)

lemma f64_normal:
  assumes "pow2 e \<le> x" and "x < pow2 (e + 1)" and "- 1022 \<le> e"
  shows "f64 x = of_int (round_even (x / pow2 (e - 52))) * pow2 (e - 52)"
  using fl_normal [OF assms, of 53] by (simp add: f64_def)

lemma f32_error:
  assumes "0 \<le> x" and "x \<le> b"
  shows "\<bar>f32 x - x\<bar> \<le> b / 2 ^ 24 + 1 / 2 ^ 150"
proof -
  have "\<bar>f32 x - x\<bar> \<le> x * pow2 (- int 24) + pow2 (- 126 - int 24)"
    unfolding f32_def using assms(1) by (rule fl_error) simp
  also have "\<dots> = x / 2 ^ 24 + 1 / 2 ^ 150" by simp
  also from assms(2) have "\<dots> \<le> b / 2 ^ 24 + 1 / 2 ^ 150" by (simp add: divide_right_mono)
  finally show ?thesis .
qed

text \<open>The literals of the program that are values of \<open>float\<close>, and those that are not.\<close>

lemma f32_1 [simp]: "f32 1 = 1"
  using f32_int [of 1] by simp

lemma f64_1 [simp]: "f64 1 = 1"
  using f64_int [of 1] by simp

lemma f32_numeral_small: "numeral n \<le> (2 ^ 24 :: int) \<Longrightarrow> f32 (numeral n) = numeral n"
  using f32_int [of "numeral n"] by simp

lemma f64_numeral_small: "numeral n \<le> (2 ^ 53 :: int) \<Longrightarrow> f64 (numeral n) = numeral n"
  using f64_int [of "numeral n"] by simp

lemma f32_quarter [simp]: "f32 (1 / 4) = 1 / 4"
  using f32_ratio [of 1 2] by simp

lemma f32_three_halves [simp]: "f32 (3 / 2) = 3 / 2"
  using f32_ratio [of 3 1] by simp

lemma f32_three_quarters [simp]: "f32 (3 / 4) = 3 / 4"
  using f32_ratio [of 3 2] by simp

lemma f32_five_halves [simp]: "f32 (5 / 2) = 5 / 2"
  using f32_ratio [of 5 1] by simp

lemma f32_fifteen_eighths [simp]: "f32 (15 / 8) = 15 / 8"
  using f32_ratio [of 15 3] by simp

lemma f32_seven_quarters [simp]: "f32 (7 / 4) = 7 / 4"
  using f32_ratio [of 7 2] by simp

lemma f32_tenth: "f32 (1 / 10) = 13421773 / 134217728"
  using f32_normal [of "- 4" "1 / 10"] by (simp add: round_even_def)

section \<open>Properties of the instance placement\<close>

subsection \<open>The loops as a sequence of stores\<close>

text \<open>
  Every member of \<open>currentInstanceRef\<close> is assigned in the loop body, so the record
  stored does not depend on what the element held before.
\<close>

lemma fillInstance_eq:
  "fillInstance M RAND_MAX layerCount ring d cur =
     \<lparr>pos = (stored_product M (rho M ring (uRho d)) (cmath_cos M (theta (uTheta d))),
             f32 (f32 (uY d * f32 0.05) - f32 0.25),
             stored_product M (rho M ring (uRho d)) (cmath_sin M (theta (uTheta d)))),
      rot = (f32 (f64 (M_PI * uRotX d)), f32 (f64 (M_PI * uRotY d)),
             f32 (f64 (M_PI * uRotZ d))),
      scale = f32 (f32 (f32 (f32 1.5 + uScale1 d) - uScale2 d) * f32 0.75),
      texIndex = nat \<lfloor>rnd RAND_MAX (f32 (real layerCount)) (randTex d)\<rfloor>\<rparr>"
  by (cases cur) (simp add: fillInstance_def Let_def)

lemma fillInstance_cur:
  "fillInstance M RAND_MAX layerCount ring d cur = fillInstance M RAND_MAX layerCount ring d cur'"
  by (simp only: fillInstance_eq)

lemma loopBody_store:
  "loopBody M R L rs src q p xs =
     xs[instanceId q p := fillInstance M R L (rs ! snd p) (src (fst p) (snd p)) zeroInstanceData]"
  unfolding loopBody_def by (subst fillInstance_cur [where cur' = zeroInstanceData]) (rule refl)

lemma length_fold_loopBody:
  "length (fold (loopBody M R L rs src q) ps xs) = length xs"
  by (induction ps arbitrary: xs) (simp_all add: loopBody_store)

lemma fold_loopBody_other:
  "i \<notin> instanceId q ` set ps \<Longrightarrow> fold (loopBody M R L rs src q) ps xs ! i = xs ! i"
  by (induction ps arbitrary: xs) (simp_all add: loopBody_store)

lemma fold_loopBody_written:
  assumes "distinct (map (instanceId q) ps)" and "p \<in> set ps" and "instanceId q p < length xs"
  shows "fold (loopBody M R L rs src q) ps xs ! instanceId q p =
           fillInstance M R L (rs ! snd p) (src (fst p) (snd p)) zeroInstanceData"
  using assms
proof (induction ps arbitrary: xs)
  case Nil
  then show ?case by simp
next
  case (Cons a ps)
  show ?case
  proof (cases "p = a")
    case True
    with Cons.prems have "instanceId q p \<notin> instanceId q ` set ps" by auto
    then have "fold (loopBody M R L rs src q) ps (loopBody M R L rs src q a xs) ! instanceId q p
                 = loopBody M R L rs src q a xs ! instanceId q p"
      by (rule fold_loopBody_other)
    also have "\<dots> = fillInstance M R L (rs ! snd p) (src (fst p) (snd p)) zeroInstanceData"
      using True Cons.prems(3) by (simp only: loopBody_store nth_list_update_eq)
    finally show ?thesis by simp
  next
    case False
    with Cons.prems have "p \<in> set ps" by simp
    moreover from Cons.prems have "distinct (map (instanceId q) ps)" by simp
    moreover from Cons.prems have "instanceId q p < length (loopBody M R L rs src q a xs)"
      by (simp add: loopBody_store)
    ultimately show ?thesis using Cons.IH by simp
  qed
qed

lemma instanceId_inj:
  assumes "fst p < q" "fst p' < q" "instanceId q p = instanceId q p'"
  shows "p = p'"
proof -
  from assms have e: "fst p + snd p * q = fst p' + snd p' * q" by (simp add: instanceId_def)
  from e have "(fst p + snd p * q) mod q = (fst p' + snd p' * q) mod q" by simp
  with assms have f: "fst p = fst p'" by simp
  from e have "(fst p + snd p * q) div q = (fst p' + snd p' * q) div q" by simp
  with assms have "snd p = snd p'" by simp
  with f show ?thesis by (simp add: prod_eq_iff)
qed

lemma distinct_writtenIds: "distinct (writtenIds n k)"
proof -
  have "inj_on (instanceId (n div k)) (set (passes (n div k) k))"
  proof (rule inj_onI)
    fix p p' assume "p \<in> set (passes (n div k) k)" "p' \<in> set (passes (n div k) k)"
      and e: "instanceId (n div k) p = instanceId (n div k) p'"
    then have "fst p < n div k" "fst p' < n div k" by (auto simp: passes_def)
    then show "p = p'" using e by (rule instanceId_inj)
  qed
  moreover have "distinct (passes (n div k) k)"
    by (simp add: passes_def distinct_product)
  ultimately show ?thesis by (simp add: writtenIds_def distinct_map)
qed

lemma set_writtenIds_form:
  "set (writtenIds n k) = {c + r * (n div k) | c r. c < n div k \<and> r < k}"
  by (force simp: writtenIds_def passes_def instanceId_def image_iff)

lemma set_writtenIds: "set (writtenIds n k) = {0..<(n div k) * k}"
proof (intro equalityI subsetI)
  fix i assume "i \<in> set (writtenIds n k)"
  then obtain c r where i: "i = c + r * (n div k)" and c: "c < n div k" and r: "r < k"
    by (auto simp: set_writtenIds_form)
  from r have "Suc r \<le> k" by simp
  then have "Suc r * (n div k) \<le> k * (n div k)" by (rule mult_le_mono1)
  with i c show "i \<in> {0..<(n div k) * k}" by (simp add: mult.commute)
next
  fix i assume "i \<in> {0..<(n div k) * k}"
  then have lt: "i < (n div k) * k" by simp
  then have q: "0 < n div k" by (cases "n div k") simp_all
  from lt have "i div (n div k) < k" by (simp add: less_mult_imp_div_less mult.commute)
  moreover from q have "i mod (n div k) < n div k" by simp
  moreover have "i = i mod (n div k) + (i div (n div k)) * (n div k)"
    by (simp add: mod_div_mult_eq)
  ultimately show "i \<in> set (writtenIds n k)"
    unfolding set_writtenIds_form by blast
qed

lemma length_writtenIds: "length (writtenIds n k) = (n div k) * k"
  by (simp add: writtenIds_def passes_def)

lemma sizeof_InstanceData_32: "sizeof_InstanceData = 32"
  by (simp add: sizeof_InstanceData_def struct_sizeof_def InstanceData_members_def align_up_def)

lemma member_offsets_InstanceData: "member_offsets InstanceData_members 0 = [0, 12, 24, 28]"
  by (simp add: InstanceData_members_def align_up_def)

lemma length_generate: "length (generate M R L n rs src) = n"
  by (simp add: generate_def Let_def length_fold_loopBody)

lemma generate_unwritten:
  assumes "i \<notin> set (writtenIds n (length rs))" and "i < n"
  shows "generate M R L n rs src ! i = zeroInstanceData"
proof -
  from assms(1) have "i \<notin> instanceId (n div length rs) ` set (passes (n div length rs) (length rs))"
    by (simp add: writtenIds_def)
  then have "generate M R L n rs src ! i = replicate n zeroInstanceData ! i"
    unfolding generate_def Let_def by (rule fold_loopBody_other)
  with assms(2) show ?thesis by simp
qed

lemma generate_written:
  assumes "i \<in> set (writtenIds n (length rs))"
  shows "generate M R L n rs src ! i =
           fillInstance M R L (rs ! (i div (n div length rs)))
             (src (i mod (n div length rs)) (i div (n div length rs))) zeroInstanceData"
proof -
  let ?q = "n div length rs"
  from assms obtain p where p: "p \<in> set (passes ?q (length rs))" and i: "i = instanceId ?q p"
    by (auto simp: writtenIds_def)
  from p have c: "fst p < ?q" by (auto simp: passes_def)
  from i have "i = fst p + snd p * ?q" by (simp add: instanceId_def)
  with c have dm: "i mod ?q = fst p" "i div ?q = snd p" by simp_all
  from assms have "i < ?q * length rs" by (simp add: set_writtenIds)
  also have "\<dots> \<le> n" by simp
  finally have "instanceId ?q p < length (replicate n zeroInstanceData)" using i by simp
  with distinct_writtenIds [of n "length rs"] p
  have "fold (loopBody M R L rs src ?q) (passes ?q (length rs)) (replicate n zeroInstanceData) ! instanceId ?q p
          = fillInstance M R L (rs ! snd p) (src (fst p) (snd p)) zeroInstanceData"
    unfolding writtenIds_def by (rule fold_loopBody_written)
  then show ?thesis by (simp add: generate_def Let_def i [symmetric] dm)
qed

lemma instance_setup: "INSTANCE_COUNT = 2048" "length rings = 6" "INSTANCE_COUNT div length rings = 341"
  by (simp_all add: INSTANCE_COUNT_def rings_def)



subsection \<open>What the uploaded vector holds\<close>

lemma prepare_instanceData:
  "instanceData (prepareInstanceData M RAND_MAX layerCount src) =
     generate M RAND_MAX layerCount INSTANCE_COUNT rings src"
  by (simp add: prepareInstanceData_def Let_def)

lemma uploaded_all:
  "uploaded (prepareInstanceData M RAND_MAX layerCount src) =
     generate M RAND_MAX layerCount INSTANCE_COUNT rings src"
  by (simp add: uploaded_def prepareInstanceData_def Let_def sizeof_InstanceData_32 length_generate)

lemma written_iff: "i \<in> set (writtenIds INSTANCE_COUNT (length rings)) \<longleftrightarrow> i < 2046"
  by (simp add: set_writtenIds instance_setup)

lemma scale_fillInstance:
  "scale (fillInstance M RAND_MAX layerCount ring d cur) =
     f32 (f32 (f32 (f32 1.5 + uScale1 d) - uScale2 d) * f32 0.75)"
  by (simp add: fillInstance_eq)

lemma texIndex_fillInstance:
  "texIndex (fillInstance M RAND_MAX layerCount ring d cur) =
     nat \<lfloor>rnd RAND_MAX (f32 (real layerCount)) (randTex d)\<rfloor>"
  by (simp add: fillInstance_eq)

lemma pos_fillInstance:
  "pos (fillInstance M RAND_MAX layerCount ring d cur) =
     (stored_product M (rho M ring (uRho d)) (cmath_cos M (theta (uTheta d))),
      f32 (f32 (uY d * f32 0.05) - f32 0.25),
      stored_product M (rho M ring (uRho d)) (cmath_sin M (theta (uTheta d))))"
  by (simp add: fillInstance_eq)

lemma generate_written_2048:
  assumes "i < 2046"
  shows "generate M RAND_MAX layerCount INSTANCE_COUNT rings src ! i =
      fillInstance M RAND_MAX layerCount (rings ! (i div 341)) (src (i mod 341) (i div 341))
        zeroInstanceData"
proof -
  from assms have w: "i \<in> set (writtenIds INSTANCE_COUNT (length rings))"
    by (simp add: written_iff)
  show ?thesis
    using generate_written [OF w, of M RAND_MAX layerCount src] by (simp only: instance_setup(3))
qed

subsection \<open>Texture layer index\<close>

text \<open>
  \<open>rand()\<close> may return \<open>RAND_MAX\<close> itself; the quotient is then 1 and \<open>rnd\<close>
  returns its whole argument.
\<close>

lemma f64_glibc_RAND_MAX: "f64 (real glibc_RAND_MAX) = 2147483647"
  using f64_int [of 2147483647] by (simp add: glibc_RAND_MAX_def)

lemma f32_6: "f32 6 = 6"
  using f32_int [of 6] by simp

lemma f64_6: "f64 6 = 6"
  using f64_int [of 6] by simp

lemma rnd_at_RAND_MAX: "rnd glibc_RAND_MAX (f32 6) glibc_RAND_MAX = 6"
  by (simp add: rnd_def f64_glibc_RAND_MAX f32_6 f64_6)

lemma unit_draw_0: "unit_draw 0"
  by (simp add: unit_draw_def)

text \<open>
  With six layers the conversion to \<open>float\<close> rounds the product up to 6 for the 86
  largest values of \<open>rand()\<close>, and for no other: \<open>6 * (1 - j / RAND_MAX)\<close> is nearer
  to 6 than to the \<open>float\<close> below 6 exactly when \<open>j \<le> 85\<close>.
\<close>

lemma rnd_quotient:
  assumes "r \<le> glibc_RAND_MAX"
  shows "f64 (real r) / f64 (real glibc_RAND_MAX) = real r / 2147483647"
    and "0 \<le> real r / 2147483647" and "real r / 2147483647 \<le> 1"
proof -
  from assms have "int r \<le> 2 ^ 53" by (simp add: glibc_RAND_MAX_def)
  with f64_int [of "int r"] have "f64 (real r) = real r" by simp
  then show "f64 (real r) / f64 (real glibc_RAND_MAX) = real r / 2147483647"
    by (simp add: f64_glibc_RAND_MAX)
  show "0 \<le> real r / 2147483647" by simp
  from assms show "real r / 2147483647 \<le> 1" by (simp add: glibc_RAND_MAX_def)
qed

lemma texIndex_top:
  assumes "glibc_RAND_MAX - 85 \<le> r" and "r \<le> glibc_RAND_MAX"
  shows "nat \<lfloor>rnd glibc_RAND_MAX (f32 6) r\<rfloor> = 6"
proof -
  define q where "q = f64 (real r / 2147483647)"
  note rq = rnd_quotient [OF assms(2)]
  have c: "f64 (8589934251 / 8589934592) = 8589934251 / 8589934592"
    using f64_ratio [of 8589934251 33] by simp
  have c6: "f64 (25769802753 / 4294967296) = 25769802753 / 4294967296"
    using f64_ratio [of 25769802753 32] by simp
  have r6: "f32 (25769802753 / 4294967296) = 6"
    using f32_normal [of 2 "25769802753 / 4294967296"] by (simp add: round_even_def)
  from assms(1) have "2147483562 \<le> real r" by (simp add: glibc_RAND_MAX_def)
  then have lo: "8589934251 / 8589934592 \<le> real r / 2147483647" by simp
  then have "f64 (8589934251 / 8589934592) \<le> q" unfolding q_def by (intro f64_mono) simp_all
  then have q0: "8589934251 / 8589934592 \<le> q" by (simp only: c)
  from rq(2,3) have "q \<le> f64 1" unfolding q_def by (rule f64_mono)
  then have q1: "q \<le> 1" by simp
  from q0 have p0: "25769802753 / 4294967296 \<le> 6 * q" by simp
  then have "f64 (25769802753 / 4294967296) \<le> f64 (6 * q)" by (intro f64_mono) simp_all
  then have d0: "25769802753 / 4294967296 \<le> f64 (6 * q)" by (simp only: c6)
  from p0 have "0 \<le> 6 * q" by simp
  moreover from q1 have "6 * q \<le> 6" by simp
  ultimately have "f64 (6 * q) \<le> f64 6" by (rule f64_mono)
  then have d1: "f64 (6 * q) \<le> 6" by (simp only: f64_6)
  from d0 have "f32 (25769802753 / 4294967296) \<le> f32 (f64 (6 * q))" by (intro f32_mono) simp_all
  then have e0: "6 \<le> f32 (f64 (6 * q))" by (simp only: r6)
  from d0 have "0 \<le> f64 (6 * q)" by simp
  from this d1 have "f32 (f64 (6 * q)) \<le> f32 6" by (rule f32_mono)
  then have e1: "f32 (f64 (6 * q)) \<le> 6" by (simp only: f32_6)
  have "rnd glibc_RAND_MAX (f32 6) r = f32 (f64 (6 * q))"
    by (simp only: rnd_def rq(1) f32_6 q_def)
  with e0 e1 have "rnd glibc_RAND_MAX (f32 6) r = 6" by simp
  then show ?thesis by simp
qed

lemma texIndex_below:
  assumes "r + 86 \<le> glibc_RAND_MAX"
  shows "nat \<lfloor>rnd glibc_RAND_MAX (f32 6) r\<rfloor> < 6"
proof -
  define q where "q = f64 (real r / 2147483647)"
  from assms have le: "r \<le> glibc_RAND_MAX" by simp
  note rq = rnd_quotient [OF le]
  have c: "f64 (4294967125 / 4294967296) = 4294967125 / 4294967296"
    using f64_ratio [of 4294967125 32] by simp
  have c6: "f64 (12884901375 / 2147483648) = 12884901375 / 2147483648"
    using f64_ratio [of 12884901375 31] by simp
  have r6: "f32 (12884901375 / 2147483648) = 12582911 / 2097152"
    using f32_normal [of 2 "12884901375 / 2147483648"] by (simp add: round_even_def)
  from assms have "real r + 86 \<le> 2147483647"
    by (simp add: glibc_RAND_MAX_def flip: of_nat_add)
  then have "real r \<le> 2147483561" by simp
  then have hi: "real r / 2147483647 \<le> 4294967125 / 4294967296" by simp
  with rq(2) have "q \<le> f64 (4294967125 / 4294967296)" unfolding q_def by (rule f64_mono)
  then have q1: "q \<le> 4294967125 / 4294967296" by (simp only: c)
  from rq(2) have q0: "0 \<le> q" unfolding q_def by (rule f64_nonneg)
  then have p0: "0 \<le> 6 * q" by simp
  from q1 have "6 * q \<le> 12884901375 / 2147483648" by simp
  with p0 have "f64 (6 * q) \<le> f64 (12884901375 / 2147483648)" by (rule f64_mono)
  then have d1: "f64 (6 * q) \<le> 12884901375 / 2147483648" by (simp only: c6)
  from p0 have d0: "0 \<le> f64 (6 * q)" by (rule f64_nonneg)
  from d0 d1 have "f32 (f64 (6 * q)) \<le> f32 (12884901375 / 2147483648)" by (rule f32_mono)
  then have e1: "f32 (f64 (6 * q)) \<le> 12582911 / 2097152" by (simp only: r6)
  have "rnd glibc_RAND_MAX (f32 6) r = f32 (f64 (6 * q))"
    by (simp only: rnd_def rq(1) f32_6 q_def)
  with e1 have "rnd glibc_RAND_MAX (f32 6) r < 6" by simp
  then show ?thesis by linarith
qed

text \<open>
  C2. The texture layer index is not always below the layer count: with six layers and
  a pass whose \<open>rand()\<close> returns \<open>RAND_MAX\<close>, a value \<open>rand()\<close> is documented to
  return, the record written at index 0 has texture index 6, whatever the library.
\<close>

theorem texIndex_reaches_layerCount:
  "draws_ok glibc_RAND_MAX (zero_draws\<lparr>randTex := glibc_RAND_MAX\<rparr>) \<and>
   (\<forall>M. texIndex (instanceData (prepareInstanceData M glibc_RAND_MAX 6
       (\<lambda>c r. zero_draws\<lparr>randTex := glibc_RAND_MAX\<rparr>)) ! 0) = 6) \<and>
   (\<forall>M. \<not> texIndex (instanceData (prepareInstanceData M glibc_RAND_MAX 6
       (\<lambda>c r. zero_draws\<lparr>randTex := glibc_RAND_MAX\<rparr>)) ! 0) < 6)"
proof -
  have w: "0 \<in> set (writtenIds INSTANCE_COUNT (length rings))" by (simp add: written_iff)
  have t: "texIndex (instanceData (prepareInstanceData M glibc_RAND_MAX 6
       (\<lambda>c r. zero_draws\<lparr>randTex := glibc_RAND_MAX\<rparr>)) ! 0) = 6" for M
  proof -
    from w have "instanceData (prepareInstanceData M glibc_RAND_MAX 6
         (\<lambda>c r. zero_draws\<lparr>randTex := glibc_RAND_MAX\<rparr>)) ! 0 =
       fillInstance M glibc_RAND_MAX 6 (rings ! (0 div (INSTANCE_COUNT div length rings)))
         (zero_draws\<lparr>randTex := glibc_RAND_MAX\<rparr>) zeroInstanceData"
      unfolding prepare_instanceData by (simp only: generate_written)
    then show ?thesis by (simp add: texIndex_fillInstance rnd_at_RAND_MAX)
  qed
  have "draws_ok glibc_RAND_MAX (zero_draws\<lparr>randTex := glibc_RAND_MAX\<rparr>)"
    by (simp add: draws_ok_def unit_draw_0 zero_draws_def)
  with t show ?thesis by simp
qed

subsection \<open>Radius\<close>

text \<open>
  With the squares and their difference values of the format, every intermediate result
  of line 803 stays between the value for \<open>U = 0\<close> and the value for \<open>U = 1\<close>,
  because rounding is monotone and leaves values of the format alone.
\<close>

lemma radius_in_bounds:
  assumes mono: "\<And>x y. 0 \<le> x \<Longrightarrow> x \<le> y \<Longrightarrow> F x \<le> F y"
    and zero: "F 0 = 0"
    and ring: "0 \<le> fst ring" "fst ring < snd ring"
    and ex: "F (fst ring) = fst ring" "F (snd ring) = snd ring"
      "F ((fst ring)\<^sup>2) = (fst ring)\<^sup>2" "F ((snd ring)\<^sup>2) = (snd ring)\<^sup>2"
      "F ((snd ring)\<^sup>2 - (fst ring)\<^sup>2) = (snd ring)\<^sup>2 - (fst ring)\<^sup>2"
    and u: "0 \<le> u" "u < 1"
  shows "fst ring \<le> radius_in F ring u" and "radius_in F ring u \<le> snd ring"
proof -
  let ?a = "fst ring" and ?b = "snd ring"
  define t where "t = F ((?b\<^sup>2 - ?a\<^sup>2) * u)"
  define s where "s = F (t + ?a\<^sup>2)"
  have r: "radius_in F ring u = F (sqrt s)"
    by (simp add: radius_in_def s_def t_def ex)
  from ring have b: "0 \<le> ?b" by simp
  from ring have "?a\<^sup>2 \<le> ?b\<^sup>2" by (simp add: power_mono)
  then have d: "0 \<le> ?b\<^sup>2 - ?a\<^sup>2" by simp
  with u have du: "0 \<le> (?b\<^sup>2 - ?a\<^sup>2) * u" by simp
  from d u have du1: "(?b\<^sup>2 - ?a\<^sup>2) * u \<le> (?b\<^sup>2 - ?a\<^sup>2) * 1"
    by (intro mult_left_mono) simp_all
  from mono [of 0 "(?b\<^sup>2 - ?a\<^sup>2) * u"] du have t0: "0 \<le> t" by (simp add: t_def zero)
  from mono [OF du du1] have t1: "t \<le> ?b\<^sup>2 - ?a\<^sup>2" by (simp add: t_def ex)
  have a2: "0 \<le> ?a\<^sup>2" by simp
  from mono [of "?a\<^sup>2" "t + ?a\<^sup>2"] a2 t0 have s0: "?a\<^sup>2 \<le> s" by (simp add: s_def ex)
  from t0 a2 have "0 \<le> t + ?a\<^sup>2" by simp
  moreover from t1 have "t + ?a\<^sup>2 \<le> ?b\<^sup>2" by simp
  ultimately have "F (t + ?a\<^sup>2) \<le> F (?b\<^sup>2)" by (rule mono)
  then have s1: "s \<le> ?b\<^sup>2" by (simp add: s_def ex)
  from s0 have "sqrt (?a\<^sup>2) \<le> sqrt s" by (simp only: real_sqrt_le_iff)
  with ring(1) have q0: "?a \<le> sqrt s" by simp
  from s1 have "sqrt s \<le> sqrt (?b\<^sup>2)" by (simp only: real_sqrt_le_iff)
  with b have q1: "sqrt s \<le> ?b" by simp
  from mono [OF ring(1) q0] show "fst ring \<le> radius_in F ring u" by (simp add: r ex)
  from ring(1) q0 have "0 \<le> sqrt s" by linarith
  from mono [OF this q1] show "radius_in F ring u \<le> snd ring" by (simp add: r ex)
qed

lemma rho_bounds:
  assumes "ring_ok ring" and "0 \<le> u" and "u < 1"
  shows "fst ring \<le> rho M ring u" and "rho M ring u \<le> snd ring"
proof -
  let ?a = "fst ring" and ?b = "snd ring"
  from assms(1) have ring: "0 \<le> ?a" "?a < ?b"
    and e32: "f32 ?a = ?a" "f32 ?b = ?b" "f32 (?a\<^sup>2) = ?a\<^sup>2" "f32 (?b\<^sup>2) = ?b\<^sup>2"
      "f32 (?b\<^sup>2 - ?a\<^sup>2) = ?b\<^sup>2 - ?a\<^sup>2"
    by (simp_all add: ring_ok_def)
  from ring have b: "0 \<le> ?b" by simp
  from ring have "?a\<^sup>2 \<le> ?b\<^sup>2" by (simp add: power_mono)
  then have d: "0 \<le> ?b\<^sup>2 - ?a\<^sup>2" by simp
  have e64: "f64 ?a = ?a" "f64 ?b = ?b" "f64 (?a\<^sup>2) = ?a\<^sup>2" "f64 (?b\<^sup>2) = ?b\<^sup>2"
      "f64 (?b\<^sup>2 - ?a\<^sup>2) = ?b\<^sup>2 - ?a\<^sup>2"
    using ring(1) b d e32 by (simp_all only: f32_f64 zero_le_power2)
  note f = radius_in_bounds [of f32 ring u, OF f32_mono f32_0 ring e32 assms(2,3)]
  note g = radius_in_bounds [of f64 ring u, OF f64_mono f64_0 ring e64 assms(2,3)]
  from f32_mono [OF ring(1) g(1)] have g1: "?a \<le> f32 (radius_in f64 ring u)"
    by (simp only: e32)
  from ring(1) g(1) have "0 \<le> radius_in f64 ring u" by linarith
  from f32_mono [OF this g(2)] have g2: "f32 (radius_in f64 ring u) \<le> ?b"
    by (simp only: e32)
  from f g1 show "fst ring \<le> rho M ring u" by (simp add: rho_def)
  from f g2 show "rho M ring u \<le> snd ring" by (simp add: rho_def)
qed

lemma rings_ok: "\<forall>ring\<in>set rings. ring_ok ring"
  by (simp add: rings_def ring_ok_def f32_numeral_small)

text \<open>
  The largest \<open>float\<close> below 1 is a draw the distribution can return. On the innermost
  ring it gives the radius 7, the outer bound: in \<open>float\<close> the product \<open>24 * U\<close> is
  \<open>24 - 2\<^sup>-\<^sup>1\<^sup>9\<close>, and adding 25 gives a tie that goes to 49; in \<open>double\<close> the sum is
  \<open>49 - 3 * 2\<^sup>-\<^sup>2\<^sup>1\<close>, whose root is nearer to 7 than to the \<open>float\<close> below 7.
\<close>

lemma unit_draw_top: "unit_draw largest_draw"
  using f32_ratio [of 16777215 24] by (simp add: unit_draw_def largest_draw_def)

lemma radius_in_f32_top: "radius_in f32 (5, 7) largest_draw = 7"
proof -
  have t: "f32 (24 * largest_draw) = 24 - 1 / 2 ^ 19"
    using f32_normal [of 4 "24 * (1 - 1 / 2 ^ 24)"]
    by (simp add: round_even_def largest_draw_def)
  have s: "f32 (24 - 1 / 2 ^ 19 + 25) = 49"
    using f32_normal [of 5 "24 - 1 / 2 ^ 19 + 25"] by (simp add: round_even_def)
  have q: "sqrt 49 = 7" using real_sqrt_abs [of 7] by simp
  have "radius_in f32 (5, 7) largest_draw = f32 (sqrt (f32 (f32 (24 * largest_draw) + 25)))"
    by (simp add: radius_in_def f32_numeral_small)
  also have "\<dots> = 7" by (simp only: t s q) (simp add: f32_numeral_small)
  finally show ?thesis .
qed

lemma radius_in_f64_top: "f32 (radius_in f64 (5, 7) largest_draw) = 7"
proof -
  let ?s = "822083560 / 16777216 :: real"
  have t: "f64 (24 * largest_draw) = 402653160 / 2 ^ 24"
    using f64_ratio [of 402653160 24] by (simp add: largest_draw_def)
  have s: "f64 (402653160 / 2 ^ 24 + 25) = ?s"
    using f64_ratio [of 822083560 24] by simp
  have r: "radius_in f64 (5, 7) largest_draw = f64 (sqrt ?s)"
  proof -
    have "radius_in f64 (5, 7) largest_draw =
        f64 (sqrt (f64 (f64 (24 * largest_draw) + 25)))"
      by (simp add: radius_in_def f64_numeral_small)
    then show ?thesis by (simp only: t s)
  qed
  have lo: "7 - 1 / 2 ^ 23 \<le> sqrt ?s"
    by (rule real_le_rsqrt) (simp add: power2_eq_square)
  have hi: "sqrt ?s \<le> 7"
    by (rule real_le_lsqrt) simp_all
  have e: "f64 (7 - 1 / 2 ^ 23) = 7 - 1 / 2 ^ 23"
    using f64_ratio [of 58720255 23] by simp
  have "f64 (7 - 1 / 2 ^ 23) \<le> f64 (sqrt ?s)" using lo by (intro f64_mono) simp_all
  then have lo': "7 - 1 / 2 ^ 23 \<le> f64 (sqrt ?s)" by (simp only: e)
  have "f64 (sqrt ?s) \<le> f64 7" using hi by (intro f64_mono) simp_all
  then have hi': "f64 (sqrt ?s) \<le> 7" by (simp add: f64_numeral_small)
  have b: "f32 (7 - 1 / 2 ^ 23) = 7"
    using f32_normal [of 2 "7 - 1 / 2 ^ 23"] by (simp add: round_even_def)
  have "f32 (7 - 1 / 2 ^ 23) \<le> f32 (f64 (sqrt ?s))" using lo' by (intro f32_mono) simp_all
  then have "7 \<le> f32 (f64 (sqrt ?s))" by (simp only: b)
  moreover have "f32 (f64 (sqrt ?s)) \<le> f32 7" using lo' hi' by (intro f32_mono) simp_all
  then have "f32 (f64 (sqrt ?s)) \<le> 7" by (simp add: f32_numeral_small)
  ultimately show ?thesis by (simp add: r)
qed

lemma rho_top: "rho M (5, 7) largest_draw = 7"
  by (simp add: rho_def radius_in_f32_top radius_in_f64_top)

lemma rho_bottom: "rho M (5, 7) 0 = 5"
proof -
  have q: "sqrt 25 = 5" using real_sqrt_abs [of 5] by simp
  show ?thesis
    by (simp add: rho_def radius_in_def f32_numeral_small f64_numeral_small q)
qed

lemma theta_0: "theta 0 = 0"
  by (simp add: theta_def)




subsection \<open>Scale\<close>

text \<open>
  The scale of a pass: the sum lies in \<open>[1.5, 2.5]\<close>, and a draw below 1 is at most
  \<open>1 - 2\<^sup>-\<^sup>2\<^sup>4\<close>, so the difference is at least \<open>0.5 + 2\<^sup>-\<^sup>2\<^sup>4\<close>.
\<close>

lemma scale_bounds:
  assumes "unit_draw u1" "unit_draw u2"
  shows "3 / 8 < f32 (f32 (f32 (3 / 2 + u1) - u2) * (3 / 4))"
    and "f32 (f32 (f32 (3 / 2 + u1) - u2) * (3 / 4)) \<le> 15 / 8"
proof -
  from assms have u1: "0 \<le> u1" "u1 < 1" and u2: "0 \<le> u2" "u2 < 1" and f2: "f32 u2 = u2"
    by (simp_all add: unit_draw_def)
  from f2 u2(2) have u2': "u2 \<le> 1 - 1 / 2 ^ 24" by (rule f32_below_one)
  define s1 where "s1 = f32 (3 / 2 + u1)"
  define s2 where "s2 = f32 (s1 - u2)"
  have "f32 (3 / 2) \<le> f32 (3 / 2 + u1)" using u1 by (intro f32_mono) simp_all
  then have a: "3 / 2 \<le> s1" by (simp add: s1_def)
  have "f32 (3 / 2 + u1) \<le> f32 (5 / 2)" using u1 by (intro f32_mono) simp_all
  then have b: "s1 \<le> 5 / 2" by (simp add: s1_def)
  have e: "f32 (8388609 / 2 ^ 24) = 8388609 / 2 ^ 24"
    using f32_ratio [of 8388609 24] by simp
  from a u2' have lo: "8388609 / 2 ^ 24 \<le> s1 - u2" by simp
  then have "f32 (8388609 / 2 ^ 24) \<le> f32 (s1 - u2)" by (intro f32_mono) simp_all
  then have c: "8388609 / 2 ^ 24 \<le> s2" by (simp only: e s2_def)
  from lo have nn: "0 \<le> s1 - u2" by simp
  from b u2(1) have "s1 - u2 \<le> 5 / 2" by simp
  with nn have "f32 (s1 - u2) \<le> f32 (5 / 2)" by (rule f32_mono)
  then have d: "s2 \<le> 5 / 2" by (simp add: s2_def)
  have e': "f32 (12582913 / 2 ^ 25) = 12582913 / 2 ^ 25"
    using f32_ratio [of 12582913 25] by simp
  from c have lo2: "12582913 / 2 ^ 25 \<le> s2 * (3 / 4)" by simp
  then have "f32 (12582913 / 2 ^ 25) \<le> f32 (s2 * (3 / 4))" by (intro f32_mono) simp_all
  then have "12582913 / 2 ^ 25 \<le> f32 (s2 * (3 / 4))" by (simp only: e')
  then show "3 / 8 < f32 (f32 (f32 (3 / 2 + u1) - u2) * (3 / 4))"
    by (simp add: s1_def s2_def)
  from lo2 have nn2: "0 \<le> s2 * (3 / 4)" by simp
  from d have "s2 * (3 / 4) \<le> 15 / 8" by simp
  with nn2 have "f32 (s2 * (3 / 4)) \<le> f32 (15 / 8)" by (rule f32_mono)
  then show "f32 (f32 (f32 (3 / 2 + u1) - u2) * (3 / 4)) \<le> 15 / 8"
    by (simp add: s1_def s2_def)
qed

lemma scale_sum_top: "f32 (3 / 2 + largest_draw) = 5 / 2"
  using f32_normal [of 1 "3 / 2 + (1 - 1 / 2 ^ 24)"]
  by (simp add: round_even_def largest_draw_def)

text \<open>
  C5, as stated, fails twice. The uploaded buffer has 2048 records, and the record at
  index 2046 is never written, so its scale is still 0. And the interval is not open at
  its upper end: with the draws \<open>U1 = 1 - 2\<^sup>-\<^sup>2\<^sup>4\<close> and \<open>U2 = 0\<close> the sum
  \<open>1.5f + U1\<close> rounds to 2.5 and the scale written is exactly 1.875.
\<close>

theorem unwritten_scale_zero:
  "(\<forall>M. length (uploaded (prepareInstanceData M glibc_RAND_MAX 6 (\<lambda>c r. zero_draws))) = 2048) \<and>
   (\<forall>M. \<not> 0 < scale (uploaded (prepareInstanceData M glibc_RAND_MAX 6 (\<lambda>c r. zero_draws)) ! 2046)) \<and>
   draws_ok glibc_RAND_MAX (zero_draws\<lparr>uScale1 := largest_draw\<rparr>) \<and>
   (\<forall>M. scale (uploaded (prepareInstanceData M glibc_RAND_MAX 6
       (\<lambda>c r. zero_draws\<lparr>uScale1 := largest_draw\<rparr>)) ! 0) = 1.875) \<and>
   (\<forall>M. \<not> scale (uploaded (prepareInstanceData M glibc_RAND_MAX 6
       (\<lambda>c r. zero_draws\<lparr>uScale1 := largest_draw\<rparr>)) ! 0) < 1.875)"
proof -
  let ?d = "zero_draws\<lparr>uScale1 := largest_draw\<rparr>"
  have n: "2046 \<notin> set (writtenIds INSTANCE_COUNT (length rings))" by (simp add: written_iff)
  have lt: "(2046::nat) < INSTANCE_COUNT" by (simp add: instance_setup)
  have z: "generate M glibc_RAND_MAX 6 INSTANCE_COUNT rings (\<lambda>c r. zero_draws) ! 2046
      = zeroInstanceData" for M
    using n lt by (rule generate_unwritten)
  have w: "(0::nat) < 2046" by simp
  have s: "scale (generate M glibc_RAND_MAX 6 INSTANCE_COUNT rings (\<lambda>c r. ?d) ! 0) = 15 / 8" for M
    using generate_written_2048 [OF w, of M glibc_RAND_MAX 6 "\<lambda>c r. ?d"]
    by (simp add: scale_fillInstance zero_draws_def scale_sum_top)
  have ok: "draws_ok glibc_RAND_MAX ?d"
    by (simp add: draws_ok_def zero_draws_def unit_draw_0 unit_draw_top)
  have a: "\<forall>M. length (uploaded (prepareInstanceData M glibc_RAND_MAX 6 (\<lambda>c r. zero_draws))) = 2048"
    by (simp add: uploaded_all length_generate instance_setup)
  have b: "\<forall>M. \<not> 0 < scale (uploaded (prepareInstanceData M glibc_RAND_MAX 6 (\<lambda>c r. zero_draws)) ! 2046)"
    by (simp add: uploaded_all z zeroInstanceData_def)
  have c: "\<forall>M. scale (uploaded (prepareInstanceData M glibc_RAND_MAX 6 (\<lambda>c r. ?d)) ! 0) = 1.875"
    by (simp add: uploaded_all s)
  have d: "\<forall>M. \<not> scale (uploaded (prepareInstanceData M glibc_RAND_MAX 6 (\<lambda>c r. ?d)) ! 0) < 1.875"
    by (simp add: uploaded_all s)
  from a b ok c d show ?thesis by (intro conjI)
qed

text \<open>
  C5, amended. Every record the generator writes, that is every record of the uploaded
  buffer at a flat index below 2046, has the scale that lines 808 and 810 compute in
  \<open>float\<close> from the two draws \<open>U1\<close>, \<open>U2\<close> in \<open>[0, 1)\<close> of its pass, the sum, the
  difference and the product by 0.75 each rounded; the scale lies in the half-open
  interval \<open>(0.375, 1.875]\<close> and is positive.
\<close>

theorem written_scale_positive:
  assumes "\<forall>c r. unit_draw (uScale1 (src c r)) \<and> unit_draw (uScale2 (src c r))"
    and "i < 2046"
  shows "(let d = src (i mod 341) (i div 341);
              s = scale (uploaded (prepareInstanceData M RAND_MAX layerCount src) ! i)
          in s = f32 (f32 (f32 (f32 1.5 + uScale1 d) - uScale2 d) * f32 0.75) \<and>
             0.375 < s \<and> s \<le> 1.875 \<and> 0 < s)"
proof -
  let ?d = "src (i mod 341) (i div 341)"
  let ?s = "f32 (f32 (f32 (3 / 2 + uScale1 ?d) - uScale2 ?d) * (3 / 4))"
  from assms(1) have u: "unit_draw (uScale1 ?d)" "unit_draw (uScale2 ?d)"
    by simp_all
  from assms(2) have "generate M RAND_MAX layerCount INSTANCE_COUNT rings src ! i =
      fillInstance M RAND_MAX layerCount (rings ! (i div 341)) ?d zeroInstanceData"
    by (rule generate_written_2048)
  then have "scale (uploaded (prepareInstanceData M RAND_MAX layerCount src) ! i) =
      f32 (f32 (f32 (f32 1.5 + uScale1 ?d) - uScale2 ?d) * f32 0.75)"
    by (simp only: uploaded_all scale_fillInstance)
  then have e: "scale (uploaded (prepareInstanceData M RAND_MAX layerCount src) ! i) = ?s"
    by simp
  from u have b: "3 / 8 < ?s" "?s \<le> 15 / 8" by (rule scale_bounds)+
  from b(1) have "0 < ?s" by simp
  with e b show ?thesis by (simp add: Let_def)
qed

text \<open>
  The scale at index 0: 1.125 when every draw is 0, and 1.875, the upper end, when the
  first of the two draws is \<open>1 - 2\<^sup>-\<^sup>2\<^sup>4\<close>.
\<close>

theorem written_scale_positive_witness:
  "unit_draw (uScale1 zero_draws) \<and> unit_draw (uScale2 zero_draws) \<and>
   unit_draw (uScale1 (zero_draws\<lparr>uScale1 := largest_draw\<rparr>)) \<and> (0::nat) < 2046 \<and>
   scale (uploaded (prepareInstanceData double_cmath glibc_RAND_MAX 6 (\<lambda>c r. zero_draws)) ! 0) = 1.125 \<and>
   0 < scale (uploaded (prepareInstanceData double_cmath glibc_RAND_MAX 6 (\<lambda>c r. zero_draws)) ! 0) \<and>
   scale (uploaded (prepareInstanceData double_cmath glibc_RAND_MAX 6
       (\<lambda>c r. zero_draws\<lparr>uScale1 := largest_draw\<rparr>)) ! 0) = 1.875"
proof -
  let ?top = "zero_draws\<lparr>uScale1 := largest_draw\<rparr>"
  have u: "unit_draw (uScale1 zero_draws)" "unit_draw (uScale2 zero_draws)"
    by (simp_all add: unit_draw_0 zero_draws_def)
  then have h1: "\<forall>c r. unit_draw (uScale1 ((\<lambda>c r. zero_draws) c r)) \<and>
      unit_draw (uScale2 ((\<lambda>c r. zero_draws) c r))"
    by simp
  have v: "unit_draw (uScale1 ?top)" "unit_draw (uScale2 ?top)"
    by (simp_all add: unit_draw_0 unit_draw_top zero_draws_def)
  then have h1': "\<forall>c r. unit_draw (uScale1 ((\<lambda>c r. ?top) c r)) \<and>
      unit_draw (uScale2 ((\<lambda>c r. ?top) c r))"
    by simp
  have h2: "(0::nat) < 2046" by simp
  have z: "uScale1 zero_draws = 0" "uScale2 zero_draws = 0"
    "uScale1 ?top = largest_draw" "uScale2 ?top = 0"
    by (simp_all add: zero_draws_def)
  have nine: "f32 (9 / 8) = 9 / 8"
    using f32_ratio [of 9 3] by simp
  from written_scale_positive [OF h1 h2, of double_cmath glibc_RAND_MAX 6]
  have a: "scale (uploaded (prepareInstanceData double_cmath glibc_RAND_MAX 6 (\<lambda>c r. zero_draws)) ! 0)
      = 1.125"
    by (simp add: Let_def z nine)
  from written_scale_positive [OF h1' h2, of double_cmath glibc_RAND_MAX 6]
  have b: "scale (uploaded (prepareInstanceData double_cmath glibc_RAND_MAX 6 (\<lambda>c r. ?top)) ! 0)
      = 1.875"
    by (simp add: Let_def z scale_sum_top)
  from u v(1) a b show ?thesis by simp
qed

subsection \<open>Buffer size\<close>

text \<open>
  C4, as stated, fails. The generator produces 2046 records of 32 bytes, that is 65472
  bytes, but the device-local buffer is created with \<open>instanceData.size() *
  sizeof(InstanceData)\<close> = 2048 * 32 = 65536 bytes.
\<close>

theorem buffer_size_not_written_count:
  "length (writtenIds INSTANCE_COUNT (length rings)) = 2046 \<and>
   sizeof_InstanceData = 32 \<and>
   (\<forall>M. deviceBuffer_size (prepareInstanceData M glibc_RAND_MAX 6 (\<lambda>c r. zero_draws)) = 65536) \<and>
   (\<forall>M. deviceBuffer_size (prepareInstanceData M glibc_RAND_MAX 6 (\<lambda>c r. zero_draws)) \<noteq>
     length (writtenIds INSTANCE_COUNT (length rings)) * sizeof_InstanceData)"
  by (simp add: prepareInstanceData_def Let_def length_generate length_writtenIds
      instance_setup sizeof_InstanceData_32)

text \<open>
  C4, amended. A record takes 32 bytes, the sum of the sizes of its members, which lie
  at offsets 0, 12, 24 and 28 with no padding. The device-local buffer has as many bytes
  as the whole vector \<open>instanceData\<close> takes, \<open>INSTANCE_COUNT = 2048\<close> elements, two
  more than the 2046 records the generator produces: 65536 bytes, 64 more than the
  produced records take. The staging buffer has the same size and the copy moves exactly
  that many bytes, so the device receives the vector as it is: the 2046 produced records,
  each at its flat index, followed by two value-initialised elements.
\<close>

theorem buffer_size_all_records:
  "sizeof_InstanceData = 32 \<and>
   sizeof_InstanceData = sum_list (map fst InstanceData_members) \<and>
   member_offsets InstanceData_members 0 = [0, 12, 24, 28] \<and>
   length (instanceData (prepareInstanceData M RAND_MAX layerCount src)) = INSTANCE_COUNT \<and>
   deviceBuffer_size (prepareInstanceData M RAND_MAX layerCount src) =
     length (instanceData (prepareInstanceData M RAND_MAX layerCount src)) * sizeof_InstanceData \<and>
   deviceBuffer_size (prepareInstanceData M RAND_MAX layerCount src) = 65536 \<and>
   deviceBuffer_size (prepareInstanceData M RAND_MAX layerCount src) =
     (length (writtenIds INSTANCE_COUNT (length rings)) + 2) * sizeof_InstanceData \<and>
   stagingBuffer_size (prepareInstanceData M RAND_MAX layerCount src) =
     deviceBuffer_size (prepareInstanceData M RAND_MAX layerCount src) \<and>
   copyRegion_size (prepareInstanceData M RAND_MAX layerCount src) =
     deviceBuffer_size (prepareInstanceData M RAND_MAX layerCount src) \<and>
   uploaded (prepareInstanceData M RAND_MAX layerCount src) =
     instanceData (prepareInstanceData M RAND_MAX layerCount src) \<and>
   (\<forall>i. i < 2046 \<longrightarrow>
      uploaded (prepareInstanceData M RAND_MAX layerCount src) ! i =
        fillInstance M RAND_MAX layerCount (rings ! (i div 341)) (src (i mod 341) (i div 341))
          zeroInstanceData) \<and>
   uploaded (prepareInstanceData M RAND_MAX layerCount src) ! 2046 = zeroInstanceData \<and>
   uploaded (prepareInstanceData M RAND_MAX layerCount src) ! 2047 = zeroInstanceData"
proof -
  let ?P = "prepareInstanceData M RAND_MAX layerCount src"
  have a: "sizeof_InstanceData = sum_list (map fst InstanceData_members)"
    by (simp add: sizeof_InstanceData_32 InstanceData_members_def)
  have b: "length (instanceData ?P) = INSTANCE_COUNT"
    by (simp add: prepare_instanceData length_generate)
  have c: "deviceBuffer_size ?P = length (instanceData ?P) * sizeof_InstanceData"
    "stagingBuffer_size ?P = deviceBuffer_size ?P" "copyRegion_size ?P = deviceBuffer_size ?P"
    by (simp_all add: prepareInstanceData_def Let_def)
  have d: "deviceBuffer_size ?P = 65536"
    by (simp add: c b instance_setup sizeof_InstanceData_32)
  have e: "deviceBuffer_size ?P =
      (length (writtenIds INSTANCE_COUNT (length rings)) + 2) * sizeof_InstanceData"
    by (simp add: d length_writtenIds instance_setup sizeof_InstanceData_32)
  have f: "uploaded ?P = instanceData ?P"
    by (simp only: uploaded_all prepare_instanceData)
  have g: "\<forall>i. i < 2046 \<longrightarrow> uploaded ?P ! i =
      fillInstance M RAND_MAX layerCount (rings ! (i div 341)) (src (i mod 341) (i div 341))
        zeroInstanceData"
    by (simp add: uploaded_all generate_written_2048)
  have n: "2046 \<notin> set (writtenIds INSTANCE_COUNT (length rings))"
    "2047 \<notin> set (writtenIds INSTANCE_COUNT (length rings))"
    by (simp_all add: written_iff)
  have lt: "(2046::nat) < INSTANCE_COUNT" "(2047::nat) < INSTANCE_COUNT"
    by (simp_all add: instance_setup)
  have h: "uploaded ?P ! 2046 = zeroInstanceData" "uploaded ?P ! 2047 = zeroInstanceData"
    using generate_unwritten [OF n(1) lt(1), of M RAND_MAX layerCount src]
      generate_unwritten [OF n(2) lt(2), of M RAND_MAX layerCount src]
    by (simp_all only: uploaded_all)
  show ?thesis
    by (intro conjI sizeof_InstanceData_32 member_offsets_InstanceData a b c d e f g h)
qed

text \<open>
  With every draw 0: the element at index 5 of the device buffer is the record of its
  pass, which is on the innermost ring and has the scale 1.125.
\<close>

theorem buffer_size_all_records_witness:
  "(5::nat) < 2046 \<and>
   uploaded (prepareInstanceData double_cmath glibc_RAND_MAX 6 (\<lambda>c r. zero_draws)) ! 5 =
     fillInstance double_cmath glibc_RAND_MAX 6 (rings ! 0) zero_draws zeroInstanceData \<and>
   scale (uploaded (prepareInstanceData double_cmath glibc_RAND_MAX 6 (\<lambda>c r. zero_draws)) ! 5) = 1.125"
proof -
  have lt: "(5::nat) < 2046" by simp
  note t = buffer_size_all_records [of double_cmath glibc_RAND_MAX 6 "\<lambda>c r. zero_draws"]
  from t have "\<forall>i. i < 2046 \<longrightarrow>
      uploaded (prepareInstanceData double_cmath glibc_RAND_MAX 6 (\<lambda>c r. zero_draws)) ! i =
        fillInstance double_cmath glibc_RAND_MAX 6 (rings ! (i div 341)) zero_draws zeroInstanceData"
    by (elim conjE)
  with lt have a: "uploaded (prepareInstanceData double_cmath glibc_RAND_MAX 6 (\<lambda>c r. zero_draws)) ! 5 =
      fillInstance double_cmath glibc_RAND_MAX 6 (rings ! (5 div 341)) zero_draws zeroInstanceData"
    by blast
  have nine: "f32 (9 / 8) = 9 / 8"
    using f32_ratio [of 9 3] by simp
  from a have b: "uploaded (prepareInstanceData double_cmath glibc_RAND_MAX 6 (\<lambda>c r. zero_draws)) ! 5 =
      fillInstance double_cmath glibc_RAND_MAX 6 (rings ! 0) zero_draws zeroInstanceData"
    by simp
  then have "scale (uploaded (prepareInstanceData double_cmath glibc_RAND_MAX 6 (\<lambda>c r. zero_draws)) ! 5)
      = 1.125"
    by (simp add: scale_fillInstance zero_draws_def nine)
  with lt b show ?thesis by simp
qed

section \<open>Properties of the render pass and the frame buffers\<close>

text \<open>
  The loop of \<open>setupFrameBuffer\<close> changes index 1 of the array only, so every frame
  buffer gets the array with the view of its own swap chain image there.
\<close>

lemma replicate4: "replicate 4 x = [x, x, x, x]"
  by (simp add: numeral_eq_Suc)

lemma frameBuffer_fold:
  "fold (\<lambda>i (attachments, frameBuffers).
            (let attachments = attachments[1 := swapViews ! i]
             in (attachments,
                 frameBuffers @
                   [\<lparr>fb_renderPass = rp,
                     fb_attachmentCount = length attachments,
                     fb_pAttachments = attachments,
                     fb_width = w, fb_height = h, fb_layers = 1\<rparr>])))
      is (atts, acc) =
   (if is = [] then atts else atts[1 := swapViews ! last is],
    acc @ map (\<lambda>i. \<lparr>fb_renderPass = rp, fb_attachmentCount = length atts,
                      fb_pAttachments = atts[1 := swapViews ! i],
                      fb_width = w, fb_height = h, fb_layers = 1\<rparr>) is)"
  by (induction "is" arbitrary: atts acc) (simp_all add: Let_def)

lemma frameBufferLoop_map:
  "frameBufferLoop rp w h swapViews atts =
     map (\<lambda>v. \<lparr>fb_renderPass = rp, fb_attachmentCount = length atts,
                 fb_pAttachments = atts[1 := v],
                 fb_width = w, fb_height = h, fb_layers = 1\<rparr>) swapViews"
proof -
  have "frameBufferLoop rp w h swapViews atts =
      map (\<lambda>i. \<lparr>fb_renderPass = rp, fb_attachmentCount = length atts,
                  fb_pAttachments = atts[1 := swapViews ! i],
                  fb_width = w, fb_height = h, fb_layers = 1\<rparr>) [0..<length swapViews]"
    unfolding frameBufferLoop_def by (simp only: frameBuffer_fold) simp
  also have "\<dots> = map (\<lambda>v. \<lparr>fb_renderPass = rp, fb_attachmentCount = length atts,
                 fb_pAttachments = atts[1 := v],
                 fb_width = w, fb_height = h, fb_layers = 1\<rparr>) (map (\<lambda>i. swapViews ! i) [0..<length swapViews])"
    by (simp add: comp_def)
  finally show ?thesis by (simp only: map_nth)
qed

lemma setupFrameBuffer_eq:
  "setupFrameBuffer lims sc rp w h colorView depthView depthStencilView swapViews junk =
     (if sampleCount_supported lims sc
      then Inr (map (\<lambda>v. \<lparr>fb_renderPass = rp, fb_attachmentCount = 4,
                             fb_pAttachments = [colorView, v, depthView, depthStencilView],
                             fb_width = w, fb_height = h, fb_layers = 1\<rparr>) swapViews)
      else Inl AssertionFailed)"
  by (simp add: setupFrameBuffer_def setupMultisampleTarget_def frameBufferLoop_map replicate4)

lemma setupRenderPass_attachments:
  "pAttachments (setupRenderPass colorFormat depthFormat sc) =
     [\<lparr>format = colorFormat, samples = sc,
       loadOp = VK_ATTACHMENT_LOAD_OP_CLEAR, storeOp = VK_ATTACHMENT_STORE_OP_DONT_CARE,
       stencilLoadOp = VK_ATTACHMENT_LOAD_OP_DONT_CARE,
       stencilStoreOp = VK_ATTACHMENT_STORE_OP_DONT_CARE,
       initialLayout = VK_IMAGE_LAYOUT_UNDEFINED,
       finalLayout = VK_IMAGE_LAYOUT_COLOR_ATTACHMENT_OPTIMAL\<rparr>,
      \<lparr>format = colorFormat, samples = VK_SAMPLE_COUNT_1_BIT,
       loadOp = VK_ATTACHMENT_LOAD_OP_DONT_CARE, storeOp = VK_ATTACHMENT_STORE_OP_STORE,
       stencilLoadOp = VK_ATTACHMENT_LOAD_OP_DONT_CARE,
       stencilStoreOp = VK_ATTACHMENT_STORE_OP_DONT_CARE,
       initialLayout = VK_IMAGE_LAYOUT_UNDEFINED,
       finalLayout = VK_IMAGE_LAYOUT_PRESENT_SRC_KHR\<rparr>,
      \<lparr>format = depthFormat, samples = sc,
       loadOp = VK_ATTACHMENT_LOAD_OP_CLEAR, storeOp = VK_ATTACHMENT_STORE_OP_DONT_CARE,
       stencilLoadOp = VK_ATTACHMENT_LOAD_OP_DONT_CARE,
       stencilStoreOp = VK_ATTACHMENT_STORE_OP_DONT_CARE,
       initialLayout = VK_IMAGE_LAYOUT_UNDEFINED,
       finalLayout = VK_IMAGE_LAYOUT_DEPTH_STENCIL_ATTACHMENT_OPTIMAL\<rparr>,
      \<lparr>format = depthFormat, samples = VK_SAMPLE_COUNT_1_BIT,
       loadOp = VK_ATTACHMENT_LOAD_OP_DONT_CARE, storeOp = VK_ATTACHMENT_STORE_OP_STORE,
       stencilLoadOp = VK_ATTACHMENT_LOAD_OP_DONT_CARE,
       stencilStoreOp = VK_ATTACHMENT_STORE_OP_DONT_CARE,
       initialLayout = VK_IMAGE_LAYOUT_UNDEFINED,
       finalLayout = VK_IMAGE_LAYOUT_DEPTH_STENCIL_ATTACHMENT_OPTIMAL\<rparr>]"
  by (simp add: setupRenderPass_def Let_def replicate4 zeroAttachment_def)

lemma by_region_set: "VK_DEPENDENCY_BY_REGION_BIT \<noteq> 0"
  by (simp add: VK_DEPENDENCY_BY_REGION_BIT_def)

text \<open>
  C7. The render pass has four attachments: 0 the multisampled colour attachment
  (cleared, store don't care), 1 the single-sample colour attachment that is presented
  (stored), 2 the multisampled depth attachment (cleared, store don't care), 3 the
  single-sample depth attachment (stored). It has one subpass, with one colour
  reference to attachment 0, one resolve reference to attachment 1 and the depth
  reference to attachment 2, and two dependencies, from outside into subpass 0 and
  back, both with the by-region flag. When the assertion on the sample count passes,
  every frame buffer binds the multisample colour view, the view of its swap chain
  image, the multisample depth view and the depth-stencil view at indices 0 to 3.
\<close>

theorem render_pass_four_attachments:
  "(let rp = setupRenderPass colorFormat depthFormat sc in
      attachmentCount rp = 4 \<and> length (pAttachments rp) = 4 \<and>
      map (\<lambda>a. (format a, samples a, loadOp a, storeOp a)) (pAttachments rp) =
        [(colorFormat, sc, VK_ATTACHMENT_LOAD_OP_CLEAR, VK_ATTACHMENT_STORE_OP_DONT_CARE),
         (colorFormat, VK_SAMPLE_COUNT_1_BIT, VK_ATTACHMENT_LOAD_OP_DONT_CARE,
            VK_ATTACHMENT_STORE_OP_STORE),
         (depthFormat, sc, VK_ATTACHMENT_LOAD_OP_CLEAR, VK_ATTACHMENT_STORE_OP_DONT_CARE),
         (depthFormat, VK_SAMPLE_COUNT_1_BIT, VK_ATTACHMENT_LOAD_OP_DONT_CARE,
            VK_ATTACHMENT_STORE_OP_STORE)] \<and>
      map finalLayout (pAttachments rp) =
        [VK_IMAGE_LAYOUT_COLOR_ATTACHMENT_OPTIMAL, VK_IMAGE_LAYOUT_PRESENT_SRC_KHR,
         VK_IMAGE_LAYOUT_DEPTH_STENCIL_ATTACHMENT_OPTIMAL,
         VK_IMAGE_LAYOUT_DEPTH_STENCIL_ATTACHMENT_OPTIMAL] \<and>
      subpassCount rp = 1 \<and> length (pSubpasses rp) = 1 \<and>
      map (\<lambda>s. (colorAttachmentCount s, map attachment (pColorAttachments s),
                  map attachment (pResolveAttachments s),
                  map_option attachment (pDepthStencilAttachment s),
                  pInputAttachments s, pPreserveAttachments s)) (pSubpasses rp) =
        [(1, [0], [1], Some 2, [], [])] \<and>
      dependencyCount rp = 2 \<and> length (pDependencies rp) = 2 \<and>
      map (\<lambda>d. (srcSubpass d, dstSubpass d)) (pDependencies rp) =
        [(VK_SUBPASS_EXTERNAL, Subpass 0), (Subpass 0, VK_SUBPASS_EXTERNAL)] \<and>
      map (\<lambda>d. dependencyFlags d AND VK_DEPENDENCY_BY_REGION_BIT \<noteq> 0) (pDependencies rp) =
        [True, True]) \<and>
   setupFrameBuffer lims sc renderPassHandle w h colorView depthView depthStencilView
       swapViews junk =
     (if sampleCount_supported lims sc
      then Inr (map (\<lambda>v. \<lparr>fb_renderPass = renderPassHandle, fb_attachmentCount = 4,
                             fb_pAttachments = [colorView, v, depthView, depthStencilView],
                             fb_width = w, fb_height = h, fb_layers = 1\<rparr>) swapViews)
      else Inl AssertionFailed)"
proof -
  have "attachmentCount (setupRenderPass colorFormat depthFormat sc) = 4"
    by (simp add: setupRenderPass_def Let_def)
  moreover have "subpassCount (setupRenderPass colorFormat depthFormat sc) = 1"
    "dependencyCount (setupRenderPass colorFormat depthFormat sc) = 2"
    by (simp_all add: setupRenderPass_def Let_def)
  moreover have "map (\<lambda>s. (colorAttachmentCount s, map attachment (pColorAttachments s),
                  map attachment (pResolveAttachments s),
                  map_option attachment (pDepthStencilAttachment s),
                  pInputAttachments s, pPreserveAttachments s))
        (pSubpasses (setupRenderPass colorFormat depthFormat sc)) =
        [(1, [0], [1], Some 2, [], [])]"
    by (simp add: setupRenderPass_def Let_def)
  moreover have "map (\<lambda>d. (srcSubpass d, dstSubpass d))
        (pDependencies (setupRenderPass colorFormat depthFormat sc)) =
        [(VK_SUBPASS_EXTERNAL, Subpass 0), (Subpass 0, VK_SUBPASS_EXTERNAL)]"
    "map (\<lambda>d. dependencyFlags d AND VK_DEPENDENCY_BY_REGION_BIT \<noteq> 0)
        (pDependencies (setupRenderPass colorFormat depthFormat sc)) = [True, True]"
    by (simp_all add: setupRenderPass_def Let_def by_region_set)
  moreover have "length (pSubpasses (setupRenderPass colorFormat depthFormat sc)) = 1"
    "length (pDependencies (setupRenderPass colorFormat depthFormat sc)) = 2"
    by (simp_all add: setupRenderPass_def Let_def)
  ultimately show ?thesis
    by (simp add: Let_def setupRenderPass_attachments setupFrameBuffer_eq)
qed

section \<open>Properties of the command buffers and the descriptor sets\<close>

lemma draw_groups_recordCommands:
  "draw_groups (recordCommands app i) =
     [[CmdBeginRenderPass (renderPass app) (frameBuffers app ! i) (width app) (height app) 3,
       CmdSetViewport (width app) (height app),
       CmdSetScissor (width app) (height app),
       CmdBindDescriptorSets (pipelineLayout app) 0 [planetVkDescrSet (descriptorSets app)],
       CmdBindPipeline (starfieldVkPipeline (pipelines app)),
       CmdDraw 4 1 0 0],
      [CmdBindDescriptorSets (pipelineLayout app) 0 [planetVkDescrSet (descriptorSets app)],
       CmdBindPipeline (planetVkPipeline (pipelines app)),
       CmdBindVertexBuffers 0 [vertices_buffer (planetModel (models app))] [0],
       CmdBindIndexBuffer (indices_buffer (planetModel (models app))) 0,
       CmdDrawIndexed (indexCount (planetModel (models app))) 1 0 0 0],
      [CmdBindDescriptorSets (pipelineLayout app) 0 [lightVkDescrSet (descriptorSets app)],
       CmdBindPipeline (lightVkPipeline (pipelines app)),
       CmdBindVertexBuffers 0 [vertices_buffer (lightModel (models app))] [0],
       CmdBindIndexBuffer (indices_buffer (lightModel (models app))) 0,
       CmdDrawIndexed (indexCount (lightModel (models app))) 1 0 0 0],
      [CmdBindDescriptorSets (pipelineLayout app) 0 [constructVkDescrSet (descriptorSets app)],
       CmdBindPipeline (constructVkPipeline (pipelines app)),
       CmdBindVertexBuffers 0 [vertices_buffer (constructModel (models app))] [0],
       CmdBindIndexBuffer (indices_buffer (constructModel (models app))) 0,
       CmdDrawIndexed (indexCount (constructModel (models app))) 1 0 0 0],
      [CmdBindDescriptorSets (pipelineLayout app) 0
         [instancedRocksVkDescrSet (descriptorSets app)],
       CmdBindPipeline (instancedRocksVkPipeline (pipelines app)),
       CmdBindVertexBuffers 0 [vertices_buffer (rockModel (models app))] [0],
       CmdBindVertexBuffers 1 [instanceBuffer_buffer app] [0],
       CmdBindIndexBuffer (indices_buffer (rockModel (models app))) 0,
       CmdDrawIndexed (indexCount (rockModel (models app))) 2048 0 0 0]]"
  by (simp add: draw_groups_def recordCommands_def Let_def VERTEX_BUFFER_BIND_ID_def
      INSTANCE_BUFFER_BIND_ID_def INSTANCE_COUNT_def)

lemma buildCommandBuffers_Inr:
  assumes "buildCommandBuffers app = Inr app'"
  shows "length (drawCmdBuffers app') = length (drawCmdBuffers app)"
    and "length (drawCmdBuffers app) \<le> length (frameBuffers app)"
    and "i < length (drawCmdBuffers app) \<Longrightarrow> drawCmdBuffers app' ! i = recordCommands app i"
    and "app' = app\<lparr>drawCmdBuffers := map (recordCommands app) [0..<length (drawCmdBuffers app)]\<rparr>"
  using assms by (auto simp: buildCommandBuffers_def split: if_splits)

lemma buildCommandBuffers_returns:
  "length (drawCmdBuffers app) \<le> length (frameBuffers app) \<Longrightarrow>
     \<exists>app'. buildCommandBuffers app = Inr app'"
  by (simp add: buildCommandBuffers_def)

lemma recordCommands_cong:
  "recordCommands (app\<lparr>drawCmdBuffers := bufs\<rparr>) i = recordCommands app i"
  by (simp add: recordCommands_def)

lemma buildCommandBuffers_again:
  assumes "buildCommandBuffers app = Inr app'"
  shows "buildCommandBuffers app' = Inr app'"
proof -
  from assms have le: "length (drawCmdBuffers app) \<le> length (frameBuffers app)"
    and app': "app' = app\<lparr>drawCmdBuffers := map (recordCommands app) [0..<length (drawCmdBuffers app)]\<rparr>"
    by (rule buildCommandBuffers_Inr)+
  have "recordCommands app' = recordCommands app"
    unfolding app' by (rule ext) (rule recordCommands_cong)
  with le app' show ?thesis by (simp add: buildCommandBuffers_def)
qed

text \<open>
  C6. When there is a frame buffer for every command buffer, recording succeeds, and
  every recorded sequence consists of five draw groups followed by the end of the
  render pass. In order, the groups bind the star field, planet, light, construct and
  rock pipelines, and each issues one draw call: a plain draw of 4 vertices for the star
  field, indexed draws of one instance for planet, light and construct, and an indexed
  draw of \<open>INSTANCE_COUNT = 2048\<close> instances for the rocks. The star field group binds no
  vertex and no index buffer; the rocks group alone binds a second vertex buffer, the
  instance buffer, at binding 1. Recording again from the resulting state gives the
  same state.
\<close>

theorem five_groups_in_order:
  assumes "length (drawCmdBuffers app) \<le> length (frameBuffers app)"
    and "i < length (drawCmdBuffers app)"
  shows "\<exists>app'. buildCommandBuffers app = Inr app' \<and>
     buildCommandBuffers app' = Inr app' \<and>
     length (drawCmdBuffers app') = length (drawCmdBuffers app) \<and>
     (let gs = draw_groups (drawCmdBuffers app' ! i) in
        length gs = 5 \<and>
        map bound_pipelines gs =
          [[starfieldVkPipeline (pipelines app)], [planetVkPipeline (pipelines app)],
           [lightVkPipeline (pipelines app)], [constructVkPipeline (pipelines app)],
           [instancedRocksVkPipeline (pipelines app)]] \<and>
        map (filter is_draw) gs =
          [[CmdDraw 4 1 0 0],
           [CmdDrawIndexed (indexCount (planetModel (models app))) 1 0 0 0],
           [CmdDrawIndexed (indexCount (lightModel (models app))) 1 0 0 0],
           [CmdDrawIndexed (indexCount (constructModel (models app))) 1 0 0 0],
           [CmdDrawIndexed (indexCount (rockModel (models app))) 2048 0 0 0]] \<and>
        map bound_vertex_buffers gs =
          [[],
           [(0, [vertices_buffer (planetModel (models app))])],
           [(0, [vertices_buffer (lightModel (models app))])],
           [(0, [vertices_buffer (constructModel (models app))])],
           [(0, [vertices_buffer (rockModel (models app))]), (1, [instanceBuffer_buffer app])]] \<and>
        map bound_index_buffers gs =
          [[],
           [indices_buffer (planetModel (models app))],
           [indices_buffer (lightModel (models app))],
           [indices_buffer (constructModel (models app))],
           [indices_buffer (rockModel (models app))]] \<and>
        concat gs @ [CmdEndRenderPass] = drawCmdBuffers app' ! i) \<and>
     INSTANCE_COUNT = 2048 \<and> INSTANCE_BUFFER_BIND_ID = 1"
proof -
  from assms(1) obtain app' where b: "buildCommandBuffers app = Inr app'"
    using buildCommandBuffers_returns by blast
  from b have again: "buildCommandBuffers app' = Inr app'" by (rule buildCommandBuffers_again)
  from b have len: "length (drawCmdBuffers app') = length (drawCmdBuffers app)"
    by (rule buildCommandBuffers_Inr)
  from b assms(2) have cs: "drawCmdBuffers app' ! i = recordCommands app i"
    by (rule buildCommandBuffers_Inr)
  have whole: "concat (draw_groups (recordCommands app i)) @ [CmdEndRenderPass] = recordCommands app i"
    unfolding draw_groups_recordCommands
    by (simp add: recordCommands_def Let_def VERTEX_BUFFER_BIND_ID_def INSTANCE_BUFFER_BIND_ID_def
        INSTANCE_COUNT_def)
  have props: "(let gs = draw_groups (drawCmdBuffers app' ! i) in
        length gs = 5 \<and>
        map bound_pipelines gs =
          [[starfieldVkPipeline (pipelines app)], [planetVkPipeline (pipelines app)],
           [lightVkPipeline (pipelines app)], [constructVkPipeline (pipelines app)],
           [instancedRocksVkPipeline (pipelines app)]] \<and>
        map (filter is_draw) gs =
          [[CmdDraw 4 1 0 0],
           [CmdDrawIndexed (indexCount (planetModel (models app))) 1 0 0 0],
           [CmdDrawIndexed (indexCount (lightModel (models app))) 1 0 0 0],
           [CmdDrawIndexed (indexCount (constructModel (models app))) 1 0 0 0],
           [CmdDrawIndexed (indexCount (rockModel (models app))) 2048 0 0 0]] \<and>
        map bound_vertex_buffers gs =
          [[],
           [(0, [vertices_buffer (planetModel (models app))])],
           [(0, [vertices_buffer (lightModel (models app))])],
           [(0, [vertices_buffer (constructModel (models app))])],
           [(0, [vertices_buffer (rockModel (models app))]), (1, [instanceBuffer_buffer app])]] \<and>
        map bound_index_buffers gs =
          [[],
           [indices_buffer (planetModel (models app))],
           [indices_buffer (lightModel (models app))],
           [indices_buffer (constructModel (models app))],
           [indices_buffer (rockModel (models app))]] \<and>
        concat gs @ [CmdEndRenderPass] = drawCmdBuffers app' ! i)"
    unfolding cs Let_def using whole by (simp add: draw_groups_recordCommands)
  have cst: "INSTANCE_COUNT = 2048" "INSTANCE_BUFFER_BIND_ID = 1"
    by (simp_all add: INSTANCE_COUNT_def INSTANCE_BUFFER_BIND_ID_def)
  from b again len props cst show ?thesis by blast
qed

text \<open>The first command buffer of the example state.\<close>

theorem five_groups_in_order_witness:
  "length (drawCmdBuffers example_app) \<le> length (frameBuffers example_app) \<and>
   0 < length (drawCmdBuffers example_app) \<and>
   (\<exists>app'. buildCommandBuffers example_app = Inr app' \<and>
      buildCommandBuffers app' = Inr app' \<and>
      length (drawCmdBuffers app') = 2 \<and>
      map bound_pipelines (draw_groups (drawCmdBuffers app' ! 0)) = [[15], [12], [13], [14], [11]] \<and>
      map (filter is_draw) (draw_groups (drawCmdBuffers app' ! 0)) =
        [[CmdDraw 4 1 0 0], [CmdDrawIndexed 600 1 0 0 0], [CmdDrawIndexed 90 1 0 0 0],
         [CmdDrawIndexed 1200 1 0 0 0], [CmdDrawIndexed 300 2048 0 0 0]] \<and>
      map bound_vertex_buffers (draw_groups (drawCmdBuffers app' ! 0)) =
        [[], [(0, [23])], [(0, [25])], [(0, [27])], [(0, [21]), (1, [33])]])"
proof -
  have h1: "length (drawCmdBuffers example_app) \<le> length (frameBuffers example_app)"
    by (simp add: example_app_def)
  have h2: "0 < length (drawCmdBuffers example_app)"
    by (simp add: example_app_def)
  have "\<exists>app'. buildCommandBuffers example_app = Inr app' \<and>
      buildCommandBuffers app' = Inr app' \<and>
      length (drawCmdBuffers app') = 2 \<and>
      map bound_pipelines (draw_groups (drawCmdBuffers app' ! 0)) = [[15], [12], [13], [14], [11]] \<and>
      map (filter is_draw) (draw_groups (drawCmdBuffers app' ! 0)) =
        [[CmdDraw 4 1 0 0], [CmdDrawIndexed 600 1 0 0 0], [CmdDrawIndexed 90 1 0 0 0],
         [CmdDrawIndexed 1200 1 0 0 0], [CmdDrawIndexed 300 2048 0 0 0]] \<and>
      map bound_vertex_buffers (draw_groups (drawCmdBuffers app' ! 0)) =
        [[], [(0, [23])], [(0, [25])], [(0, [27])], [(0, [21]), (1, [33])]]"
  proof -
    from five_groups_in_order [OF h1 h2] obtain app' where
      r: "buildCommandBuffers example_app = Inr app'" "buildCommandBuffers app' = Inr app'"
        "length (drawCmdBuffers app') = length (drawCmdBuffers example_app)"
      and g: "let gs = draw_groups (drawCmdBuffers app' ! 0) in
        length gs = 5 \<and>
        map bound_pipelines gs =
          [[starfieldVkPipeline (pipelines example_app)], [planetVkPipeline (pipelines example_app)],
           [lightVkPipeline (pipelines example_app)], [constructVkPipeline (pipelines example_app)],
           [instancedRocksVkPipeline (pipelines example_app)]] \<and>
        map (filter is_draw) gs =
          [[CmdDraw 4 1 0 0],
           [CmdDrawIndexed (indexCount (planetModel (models example_app))) 1 0 0 0],
           [CmdDrawIndexed (indexCount (lightModel (models example_app))) 1 0 0 0],
           [CmdDrawIndexed (indexCount (constructModel (models example_app))) 1 0 0 0],
           [CmdDrawIndexed (indexCount (rockModel (models example_app))) 2048 0 0 0]] \<and>
        map bound_vertex_buffers gs =
          [[],
           [(0, [vertices_buffer (planetModel (models example_app))])],
           [(0, [vertices_buffer (lightModel (models example_app))])],
           [(0, [vertices_buffer (constructModel (models example_app))])],
           [(0, [vertices_buffer (rockModel (models example_app))]),
            (1, [instanceBuffer_buffer example_app])]] \<and>
        map bound_index_buffers gs =
          [[],
           [indices_buffer (planetModel (models example_app))],
           [indices_buffer (lightModel (models example_app))],
           [indices_buffer (constructModel (models example_app))],
           [indices_buffer (rockModel (models example_app))]] \<and>
        concat gs @ [CmdEndRenderPass] = drawCmdBuffers app' ! 0"
      by (elim exE conjE)
    from g have
      "map bound_pipelines (draw_groups (drawCmdBuffers app' ! 0)) = [[15], [12], [13], [14], [11]]"
      "map (filter is_draw) (draw_groups (drawCmdBuffers app' ! 0)) =
        [[CmdDraw 4 1 0 0], [CmdDrawIndexed 600 1 0 0 0], [CmdDrawIndexed 90 1 0 0 0],
         [CmdDrawIndexed 1200 1 0 0 0], [CmdDrawIndexed 300 2048 0 0 0]]"
      "map bound_vertex_buffers (draw_groups (drawCmdBuffers app' ! 0)) =
        [[], [(0, [23])], [(0, [25])], [(0, [27])], [(0, [21]), (1, [33])]]"
      by (simp_all add: Let_def example_app_def)
    moreover from r(3) have "length (drawCmdBuffers app') = 2" by (simp add: example_app_def)
    ultimately show ?thesis using r(1,2) by (intro exI [of _ app'] conjI)
  qed
  with h1 h2 show ?thesis by blast
qed

text \<open>
  The pool created from \<open>setupDescriptorPool\<close> has room for four sets of the layout;
  \<open>setupDescriptorSet\<close> uses all of it.
\<close>

lemma alloc_ok:
  assumes "1 \<le> setsLeft pool" "1 \<le> uniformBuffersLeft pool" "1 \<le> imageSamplersLeft pool"
  shows "vkAllocateDescriptorSets pool setLayoutBindings =
     Inr (Suc (length (handedOut pool)),
          \<lparr>setsLeft = setsLeft pool - 1, uniformBuffersLeft = uniformBuffersLeft pool - 1,
           imageSamplersLeft = imageSamplersLeft pool - 1,
           handedOut = handedOut pool @ [Suc (length (handedOut pool))]\<rparr>)"
  using assms
  by (cases pool) (simp add: vkAllocateDescriptorSets_def setLayoutBindings_def bindings_of_def)

lemma created_pool:
  "vkCreateDescriptorPool setupDescriptorPool =
     \<lparr>setsLeft = 4, uniformBuffersLeft = 4, imageSamplersLeft = 4, handedOut = []\<rparr>"
  by (simp add: vkCreateDescriptorPool_def setupDescriptorPool_def count_of_def
      DESCRIPTOR_COUNT_def)

lemma setupDescriptorSet_result:
  "setupDescriptorSet (vkCreateDescriptorPool setupDescriptorPool) scene tex =
     Inr (\<lparr>instancedRocksVkDescrSet = 1, planetVkDescrSet = 2, lightVkDescrSet = 3,
           constructVkDescrSet = 4\<rparr>,
          [writeDescriptorSet 1 VK_DESCRIPTOR_TYPE_UNIFORM_BUFFER 0 scene,
           writeDescriptorSet 1 VK_DESCRIPTOR_TYPE_COMBINED_IMAGE_SAMPLER 1 (rocksTex2DArr tex),
           writeDescriptorSet 2 VK_DESCRIPTOR_TYPE_UNIFORM_BUFFER 0 scene,
           writeDescriptorSet 2 VK_DESCRIPTOR_TYPE_COMBINED_IMAGE_SAMPLER 1 (planetTex2D tex),
           writeDescriptorSet 3 VK_DESCRIPTOR_TYPE_UNIFORM_BUFFER 0 scene,
           writeDescriptorSet 3 VK_DESCRIPTOR_TYPE_COMBINED_IMAGE_SAMPLER 1 (lightTex2D tex),
           writeDescriptorSet 4 VK_DESCRIPTOR_TYPE_UNIFORM_BUFFER 0 scene,
           writeDescriptorSet 4 VK_DESCRIPTOR_TYPE_COMBINED_IMAGE_SAMPLER 1 (constructTex2D tex)],
          \<lparr>setsLeft = 0, uniformBuffersLeft = 0, imageSamplersLeft = 0,
           handedOut = [1, 2, 3, 4]\<rparr>)"
  unfolding created_pool setupDescriptorSet_def
  by (simp add: alloc_ok eval_nat_numeral)

lemma exhausted_pool:
  "vkAllocateDescriptorSets
     \<lparr>setsLeft = 0, uniformBuffersLeft = 0, imageSamplersLeft = 0, handedOut = hs\<rparr>
     setLayoutBindings = Inl VkCheckFailed"
  by (simp add: vkAllocateDescriptorSets_def)

text \<open>
  C10. In every recorded sequence the first draw group, the star field, binds the
  planet's descriptor set at set index 0 before its draw call; five groups bind four
  different members of \<open>descriptorSets\<close>. The pool is created for 4 sets, 4 uniform
  buffer descriptors and 4 image sampler descriptors; \<open>setupDescriptorSet\<close> allocates
  exactly four sets, pairwise different, after which the pool is used up and a fifth
  allocation fails.
\<close>

theorem starfield_binds_planet_set:
  assumes "buildCommandBuffers app = Inr app'" and "i < length (drawCmdBuffers app')"
  shows "(let gs = draw_groups (drawCmdBuffers app' ! i) in
       bound_sets (hd gs) = [(0, [planetVkDescrSet (descriptorSets app)])] \<and>
       bound_pipelines (hd gs) = [starfieldVkPipeline (pipelines app)] \<and>
       last (hd gs) = CmdDraw 4 1 0 0 \<and>
       map bound_sets gs =
         [[(0, [planetVkDescrSet (descriptorSets app)])],
          [(0, [planetVkDescrSet (descriptorSets app)])],
          [(0, [lightVkDescrSet (descriptorSets app)])],
          [(0, [constructVkDescrSet (descriptorSets app)])],
          [(0, [instancedRocksVkDescrSet (descriptorSets app)])]]) \<and>
     setupDescriptorPool =
       \<lparr>poolSizes = [(VK_DESCRIPTOR_TYPE_UNIFORM_BUFFER, 4),
                     (VK_DESCRIPTOR_TYPE_COMBINED_IMAGE_SAMPLER, 4)],
        maxSets = 4\<rparr> \<and>
     (\<exists>sets writes pool.
        setupDescriptorSet (vkCreateDescriptorPool setupDescriptorPool) scene tex =
          Inr (sets, writes, pool) \<and>
        handedOut pool =
          [instancedRocksVkDescrSet sets, planetVkDescrSet sets, lightVkDescrSet sets,
           constructVkDescrSet sets] \<and>
        distinct (handedOut pool) \<and> length (handedOut pool) = 4 \<and>
        setsLeft pool = 0 \<and> uniformBuffersLeft pool = 0 \<and> imageSamplersLeft pool = 0 \<and>
        vkAllocateDescriptorSets pool setLayoutBindings = Inl VkCheckFailed)"
proof -
  from assms have cs: "drawCmdBuffers app' ! i = recordCommands app i"
    using buildCommandBuffers_Inr(1,3) by simp
  have a: "(let gs = draw_groups (drawCmdBuffers app' ! i) in
       bound_sets (hd gs) = [(0, [planetVkDescrSet (descriptorSets app)])] \<and>
       bound_pipelines (hd gs) = [starfieldVkPipeline (pipelines app)] \<and>
       last (hd gs) = CmdDraw 4 1 0 0 \<and>
       map bound_sets gs =
         [[(0, [planetVkDescrSet (descriptorSets app)])],
          [(0, [planetVkDescrSet (descriptorSets app)])],
          [(0, [lightVkDescrSet (descriptorSets app)])],
          [(0, [constructVkDescrSet (descriptorSets app)])],
          [(0, [instancedRocksVkDescrSet (descriptorSets app)])]])"
    unfolding cs Let_def by (simp add: draw_groups_recordCommands)
  have b: "setupDescriptorPool =
       \<lparr>poolSizes = [(VK_DESCRIPTOR_TYPE_UNIFORM_BUFFER, 4),
                     (VK_DESCRIPTOR_TYPE_COMBINED_IMAGE_SAMPLER, 4)],
        maxSets = 4\<rparr>"
    by (simp add: setupDescriptorPool_def DESCRIPTOR_COUNT_def)
  have c: "\<exists>sets writes pool.
        setupDescriptorSet (vkCreateDescriptorPool setupDescriptorPool) scene tex =
          Inr (sets, writes, pool) \<and>
        handedOut pool =
          [instancedRocksVkDescrSet sets, planetVkDescrSet sets, lightVkDescrSet sets,
           constructVkDescrSet sets] \<and>
        distinct (handedOut pool) \<and> length (handedOut pool) = 4 \<and>
        setsLeft pool = 0 \<and> uniformBuffersLeft pool = 0 \<and> imageSamplersLeft pool = 0 \<and>
        vkAllocateDescriptorSets pool setLayoutBindings = Inl VkCheckFailed"
    by (simp add: setupDescriptorSet_result exhausted_pool)
  from a b c show ?thesis by blast
qed

text \<open>The second command buffer of the example state binds set 2, the planet's.\<close>

theorem starfield_binds_planet_set_witness:
  "buildCommandBuffers example_app =
     Inr (example_app\<lparr>drawCmdBuffers := map (recordCommands example_app) [0, 1]\<rparr>) \<and>
   (1::nat) < length (drawCmdBuffers
      (example_app\<lparr>drawCmdBuffers := map (recordCommands example_app) [0, 1]\<rparr>)) \<and>
   bound_sets (hd (draw_groups (drawCmdBuffers
      (example_app\<lparr>drawCmdBuffers := map (recordCommands example_app) [0, 1]\<rparr>) ! 1))) =
     [(0, [2])]"
proof -
  have h1: "buildCommandBuffers example_app =
     Inr (example_app\<lparr>drawCmdBuffers := map (recordCommands example_app) [0, 1]\<rparr>)"
    by (simp add: buildCommandBuffers_def example_app_def)
  have h2: "(1::nat) < length (drawCmdBuffers
      (example_app\<lparr>drawCmdBuffers := map (recordCommands example_app) [0, 1]\<rparr>))"
    by simp
  from starfield_binds_planet_set [OF h1 h2]
  have "bound_sets (hd (draw_groups (drawCmdBuffers
      (example_app\<lparr>drawCmdBuffers := map (recordCommands example_app) [0, 1]\<rparr>) ! 1))) =
     [(0, [planetVkDescrSet (descriptorSets example_app)])]"
    unfolding Let_def by blast
  then have "bound_sets (hd (draw_groups (drawCmdBuffers
      (example_app\<lparr>drawCmdBuffers := map (recordCommands example_app) [0, 1]\<rparr>) ! 1))) =
     [(0, [2])]"
    by (simp add: example_app_def)
  with h1 h2 show ?thesis by blast
qed

section \<open>Properties of the sample count\<close>

text \<open>
  A mask that has the bit \<open>2 ^ n\<close> is at least \<open>2 ^ n\<close> as a number, and the assertion
  of \<open>setupMultisampleTarget\<close> compares numbers.
\<close>

lemma and_power_le:
  fixes w :: "32 word"
  assumes "w AND 2 ^ n \<noteq> 0"
  shows "2 ^ n \<le> w"
proof -
  from assms have b: "bit w n" by (simp add: and_exp_eq_0_iff_not_bit)
  then have "w AND 2 ^ n = 2 ^ n"
    by (intro bit_eqI) (auto simp: bit_and_iff bit_exp_iff)
  moreover have "w AND 2 ^ n \<le> w" by (rule word_and_le2)
  ultimately show ?thesis by simp
qed

lemma sample_bit_le:
  fixes w :: "32 word"
  shows "w AND VK_SAMPLE_COUNT_64_BIT \<noteq> 0 \<Longrightarrow> VK_SAMPLE_COUNT_64_BIT \<le> w"
    and "w AND VK_SAMPLE_COUNT_32_BIT \<noteq> 0 \<Longrightarrow> VK_SAMPLE_COUNT_32_BIT \<le> w"
    and "w AND VK_SAMPLE_COUNT_16_BIT \<noteq> 0 \<Longrightarrow> VK_SAMPLE_COUNT_16_BIT \<le> w"
    and "w AND VK_SAMPLE_COUNT_8_BIT \<noteq> 0 \<Longrightarrow> VK_SAMPLE_COUNT_8_BIT \<le> w"
    and "w AND VK_SAMPLE_COUNT_4_BIT \<noteq> 0 \<Longrightarrow> VK_SAMPLE_COUNT_4_BIT \<le> w"
    and "w AND VK_SAMPLE_COUNT_2_BIT \<noteq> 0 \<Longrightarrow> VK_SAMPLE_COUNT_2_BIT \<le> w"
  using and_power_le [of w 6] and_power_le [of w 5] and_power_le [of w 4]
    and_power_le [of w 3] and_power_le [of w 2] and_power_le [of w 1]
  by (simp_all add: VK_SAMPLE_COUNT_64_BIT_def VK_SAMPLE_COUNT_32_BIT_def
      VK_SAMPLE_COUNT_16_BIT_def VK_SAMPLE_COUNT_8_BIT_def VK_SAMPLE_COUNT_4_BIT_def
      VK_SAMPLE_COUNT_2_BIT_def)

lemma one_le_nonzero:
  fixes w :: "32 word"
  shows "w \<noteq> 0 \<Longrightarrow> VK_SAMPLE_COUNT_1_BIT \<le> w"
  by (simp add: VK_SAMPLE_COUNT_1_BIT_def word_le_nat_alt unat_gt_0 Suc_leI)

lemma cascade_le:
  fixes m :: "32 word"
  assumes "m \<noteq> 0"
  shows "(if m AND VK_SAMPLE_COUNT_64_BIT \<noteq> 0 then VK_SAMPLE_COUNT_64_BIT
         else if m AND VK_SAMPLE_COUNT_32_BIT \<noteq> 0 then VK_SAMPLE_COUNT_32_BIT
         else if m AND VK_SAMPLE_COUNT_16_BIT \<noteq> 0 then VK_SAMPLE_COUNT_16_BIT
         else if m AND VK_SAMPLE_COUNT_8_BIT \<noteq> 0 then VK_SAMPLE_COUNT_8_BIT
         else if m AND VK_SAMPLE_COUNT_4_BIT \<noteq> 0 then VK_SAMPLE_COUNT_4_BIT
         else if m AND VK_SAMPLE_COUNT_2_BIT \<noteq> 0 then VK_SAMPLE_COUNT_2_BIT
         else VK_SAMPLE_COUNT_1_BIT) \<le> m"
  using assms by (simp add: sample_bit_le one_le_nonzero)

lemma getMax_le_min:
  assumes "min (framebufferColorSampleCounts lims) (framebufferDepthSampleCounts lims) \<noteq> 0"
  shows "getMaxUsableSampleCount lims \<le>
    min (framebufferColorSampleCounts lims) (framebufferDepthSampleCounts lims)"
  unfolding getMaxUsableSampleCount_def Let_def using assms by (rule cascade_le)

lemma cascade_highest:
  fixes m :: "32 word"
  defines "s \<equiv> (if m AND VK_SAMPLE_COUNT_64_BIT \<noteq> 0 then VK_SAMPLE_COUNT_64_BIT
         else if m AND VK_SAMPLE_COUNT_32_BIT \<noteq> 0 then VK_SAMPLE_COUNT_32_BIT
         else if m AND VK_SAMPLE_COUNT_16_BIT \<noteq> 0 then VK_SAMPLE_COUNT_16_BIT
         else if m AND VK_SAMPLE_COUNT_8_BIT \<noteq> 0 then VK_SAMPLE_COUNT_8_BIT
         else if m AND VK_SAMPLE_COUNT_4_BIT \<noteq> 0 then VK_SAMPLE_COUNT_4_BIT
         else if m AND VK_SAMPLE_COUNT_2_BIT \<noteq> 0 then VK_SAMPLE_COUNT_2_BIT
         else VK_SAMPLE_COUNT_1_BIT)"
  shows "s \<in> {VK_SAMPLE_COUNT_1_BIT, VK_SAMPLE_COUNT_2_BIT, VK_SAMPLE_COUNT_4_BIT,
            VK_SAMPLE_COUNT_8_BIT, VK_SAMPLE_COUNT_16_BIT, VK_SAMPLE_COUNT_32_BIT,
            VK_SAMPLE_COUNT_64_BIT}"
    and "s \<noteq> VK_SAMPLE_COUNT_1_BIT \<longrightarrow> m AND s \<noteq> 0"
    and "\<forall>b\<in>{VK_SAMPLE_COUNT_2_BIT, VK_SAMPLE_COUNT_4_BIT, VK_SAMPLE_COUNT_8_BIT,
             VK_SAMPLE_COUNT_16_BIT, VK_SAMPLE_COUNT_32_BIT, VK_SAMPLE_COUNT_64_BIT}.
           m AND b \<noteq> 0 \<longrightarrow> b \<le> s"
proof -
  have le: "VK_SAMPLE_COUNT_2_BIT \<le> VK_SAMPLE_COUNT_4_BIT"
    "VK_SAMPLE_COUNT_4_BIT \<le> VK_SAMPLE_COUNT_8_BIT"
    "VK_SAMPLE_COUNT_8_BIT \<le> VK_SAMPLE_COUNT_16_BIT"
    "VK_SAMPLE_COUNT_16_BIT \<le> VK_SAMPLE_COUNT_32_BIT"
    "VK_SAMPLE_COUNT_32_BIT \<le> VK_SAMPLE_COUNT_64_BIT"
    by (simp_all add: VK_SAMPLE_COUNT_64_BIT_def VK_SAMPLE_COUNT_32_BIT_def
      VK_SAMPLE_COUNT_16_BIT_def VK_SAMPLE_COUNT_8_BIT_def VK_SAMPLE_COUNT_4_BIT_def
      VK_SAMPLE_COUNT_2_BIT_def)
  show "s \<in> {VK_SAMPLE_COUNT_1_BIT, VK_SAMPLE_COUNT_2_BIT, VK_SAMPLE_COUNT_4_BIT,
            VK_SAMPLE_COUNT_8_BIT, VK_SAMPLE_COUNT_16_BIT, VK_SAMPLE_COUNT_32_BIT,
            VK_SAMPLE_COUNT_64_BIT}"
    by (simp add: s_def)
  show "s \<noteq> VK_SAMPLE_COUNT_1_BIT \<longrightarrow> m AND s \<noteq> 0"
    by (simp add: s_def)
  show "\<forall>b\<in>{VK_SAMPLE_COUNT_2_BIT, VK_SAMPLE_COUNT_4_BIT, VK_SAMPLE_COUNT_8_BIT,
             VK_SAMPLE_COUNT_16_BIT, VK_SAMPLE_COUNT_32_BIT, VK_SAMPLE_COUNT_64_BIT}.
           m AND b \<noteq> 0 \<longrightarrow> b \<le> s"
    using le by (auto simp: s_def)
qed

lemma min_nonzero:
  fixes c d :: "32 word"
  shows "c \<noteq> 0 \<Longrightarrow> d \<noteq> 0 \<Longrightarrow> min c d \<noteq> 0"
  by (simp add: min_def)

lemma getMax_supported:
  assumes "framebufferColorSampleCounts lims \<noteq> 0" and "framebufferDepthSampleCounts lims \<noteq> 0"
  shows "sampleCount_supported lims (getMaxUsableSampleCount lims)"
proof -
  from assms have "min (framebufferColorSampleCounts lims) (framebufferDepthSampleCounts lims) \<noteq> 0"
    by (rule min_nonzero)
  then have "getMaxUsableSampleCount lims \<le>
    min (framebufferColorSampleCounts lims) (framebufferDepthSampleCounts lims)"
    by (rule getMax_le_min)
  then show ?thesis by (simp add: sampleCount_supported_def)
qed

lemma prepare_targets_supported:
  assumes "sampleCount_supported lims (getMaxUsableSampleCount lims)"
  shows "\<exists>ft. prepare_targets lims colorFormat depthFormat rp w h cv dv dsv swapViews junk = Inr ft \<and>
       sampleCount ft = getMaxUsableSampleCount lims \<and>
       map samples (pAttachments (renderPassInfo ft)) =
         [getMaxUsableSampleCount lims, VK_SAMPLE_COUNT_1_BIT,
          getMaxUsableSampleCount lims, VK_SAMPLE_COUNT_1_BIT] \<and>
       length (frameBufferInfos ft) = length swapViews"
  using assms
  by (simp add: prepare_targets_def VulkanExampleBase_prepare_def Let_def setupFrameBuffer_eq
      setupRenderPass_attachments)

lemma assertion_fails:
  assumes "framebufferColorSampleCounts lims < s \<or> framebufferDepthSampleCounts lims < s"
  shows "setupMultisampleTarget lims s w h cv dv = Inl AssertionFailed"
  using assms by (auto simp: setupMultisampleTarget_def sampleCount_supported_def)

text \<open>
  When the masks have no bit beyond 64, the highest bit of a mask grows with the mask as a
  number, so the highest bit of the smaller mask is the smaller of the two highest bits.
\<close>

lemma top_bit_set:
  fixes m :: "32 word"
  assumes "2 ^ n \<le> unat m" and "unat m < 2 * 2 ^ n"
  shows "m AND 2 ^ n \<noteq> 0"
proof -
  from assms have "unat m div 2 ^ n = 1"
    by (simp add: div_nat_eqI)
  then have "bit (unat m) n" by (simp add: bit_iff_odd)
  then have "bit m n" by (simp add: bit_unsigned_iff)
  then show ?thesis by (simp add: and_exp_eq_0_iff_not_bit)
qed

lemma top_bit_iff:
  fixes m :: "32 word"
  shows "unat m < 128 \<Longrightarrow> m AND VK_SAMPLE_COUNT_64_BIT \<noteq> 0 \<longleftrightarrow> 64 \<le> unat m"
    and "unat m < 64 \<Longrightarrow> m AND VK_SAMPLE_COUNT_32_BIT \<noteq> 0 \<longleftrightarrow> 32 \<le> unat m"
    and "unat m < 32 \<Longrightarrow> m AND VK_SAMPLE_COUNT_16_BIT \<noteq> 0 \<longleftrightarrow> 16 \<le> unat m"
    and "unat m < 16 \<Longrightarrow> m AND VK_SAMPLE_COUNT_8_BIT \<noteq> 0 \<longleftrightarrow> 8 \<le> unat m"
    and "unat m < 8 \<Longrightarrow> m AND VK_SAMPLE_COUNT_4_BIT \<noteq> 0 \<longleftrightarrow> 4 \<le> unat m"
    and "unat m < 4 \<Longrightarrow> m AND VK_SAMPLE_COUNT_2_BIT \<noteq> 0 \<longleftrightarrow> 2 \<le> unat m"
  using top_bit_set [of 6 m] top_bit_set [of 5 m] top_bit_set [of 4 m]
    top_bit_set [of 3 m] top_bit_set [of 2 m] top_bit_set [of 1 m]
    sample_bit_le [of m]
  by (auto simp: word_le_nat_alt VK_SAMPLE_COUNT_64_BIT_def
      VK_SAMPLE_COUNT_32_BIT_def VK_SAMPLE_COUNT_16_BIT_def VK_SAMPLE_COUNT_8_BIT_def
      VK_SAMPLE_COUNT_4_BIT_def VK_SAMPLE_COUNT_2_BIT_def)

lemma maxSampleCount_threshold:
  fixes m :: "32 word"
  assumes "unat m < 128"
  shows "unat (maxSampleCount m) =
     (if 64 \<le> unat m then 64 else if 32 \<le> unat m then 32 else if 16 \<le> unat m then 16
      else if 8 \<le> unat m then 8 else if 4 \<le> unat m then 4 else if 2 \<le> unat m then 2 else 1)"
proof -
  consider "64 \<le> unat m" | "32 \<le> unat m" "unat m < 64" | "16 \<le> unat m" "unat m < 32"
    | "8 \<le> unat m" "unat m < 16" | "4 \<le> unat m" "unat m < 8" | "2 \<le> unat m" "unat m < 4"
    | "unat m < 2" by linarith
  then show ?thesis
  proof cases
    case 1
    with assms have b: "m AND VK_SAMPLE_COUNT_64_BIT \<noteq> 0"
      using top_bit_iff [of m] by simp_all
    have "maxSampleCount m = VK_SAMPLE_COUNT_64_BIT"
      by (simp add: maxSampleCount_def b)
    with 1 show ?thesis
      by (simp add: VK_SAMPLE_COUNT_64_BIT_def)
  next
    case 2
    with assms have b: "m AND VK_SAMPLE_COUNT_64_BIT = 0"
      "m AND VK_SAMPLE_COUNT_32_BIT \<noteq> 0"
      using top_bit_iff [of m] by simp_all
    have "maxSampleCount m = VK_SAMPLE_COUNT_32_BIT"
      by (simp add: maxSampleCount_def b)
    with 2 show ?thesis
      by (simp add: VK_SAMPLE_COUNT_32_BIT_def)
  next
    case 3
    with assms have b: "m AND VK_SAMPLE_COUNT_64_BIT = 0"
      "m AND VK_SAMPLE_COUNT_32_BIT = 0"
      "m AND VK_SAMPLE_COUNT_16_BIT \<noteq> 0"
      using top_bit_iff [of m] by simp_all
    have "maxSampleCount m = VK_SAMPLE_COUNT_16_BIT"
      by (simp add: maxSampleCount_def b)
    with 3 show ?thesis
      by (simp add: VK_SAMPLE_COUNT_16_BIT_def)
  next
    case 4
    with assms have b: "m AND VK_SAMPLE_COUNT_64_BIT = 0"
      "m AND VK_SAMPLE_COUNT_32_BIT = 0"
      "m AND VK_SAMPLE_COUNT_16_BIT = 0"
      "m AND VK_SAMPLE_COUNT_8_BIT \<noteq> 0"
      using top_bit_iff [of m] by simp_all
    have "maxSampleCount m = VK_SAMPLE_COUNT_8_BIT"
      by (simp add: maxSampleCount_def b)
    with 4 show ?thesis
      by (simp add: VK_SAMPLE_COUNT_8_BIT_def)
  next
    case 5
    with assms have b: "m AND VK_SAMPLE_COUNT_64_BIT = 0"
      "m AND VK_SAMPLE_COUNT_32_BIT = 0"
      "m AND VK_SAMPLE_COUNT_16_BIT = 0"
      "m AND VK_SAMPLE_COUNT_8_BIT = 0"
      "m AND VK_SAMPLE_COUNT_4_BIT \<noteq> 0"
      using top_bit_iff [of m] by simp_all
    have "maxSampleCount m = VK_SAMPLE_COUNT_4_BIT"
      by (simp add: maxSampleCount_def b)
    with 5 show ?thesis
      by (simp add: VK_SAMPLE_COUNT_4_BIT_def)
  next
    case 6
    with assms have b: "m AND VK_SAMPLE_COUNT_64_BIT = 0"
      "m AND VK_SAMPLE_COUNT_32_BIT = 0"
      "m AND VK_SAMPLE_COUNT_16_BIT = 0"
      "m AND VK_SAMPLE_COUNT_8_BIT = 0"
      "m AND VK_SAMPLE_COUNT_4_BIT = 0"
      "m AND VK_SAMPLE_COUNT_2_BIT \<noteq> 0"
      using top_bit_iff [of m] by simp_all
    have "maxSampleCount m = VK_SAMPLE_COUNT_2_BIT"
      by (simp add: maxSampleCount_def b)
    with 6 show ?thesis
      by (simp add: VK_SAMPLE_COUNT_2_BIT_def)
  next
    case 7
    with assms have b: "m AND VK_SAMPLE_COUNT_64_BIT = 0"
      "m AND VK_SAMPLE_COUNT_32_BIT = 0"
      "m AND VK_SAMPLE_COUNT_16_BIT = 0"
      "m AND VK_SAMPLE_COUNT_8_BIT = 0"
      "m AND VK_SAMPLE_COUNT_4_BIT = 0"
      "m AND VK_SAMPLE_COUNT_2_BIT = 0"
      using top_bit_iff [of m] by simp_all
    have "maxSampleCount m = VK_SAMPLE_COUNT_1_BIT"
      by (simp add: maxSampleCount_def b)
    with 7 show ?thesis
      by (simp add: VK_SAMPLE_COUNT_1_BIT_def)
  qed
qed

lemma maxSampleCount_mono:
  fixes c d :: "32 word"
  assumes "c \<le> d" "unat d < 128"
  shows "maxSampleCount c \<le> maxSampleCount d"
proof -
  from assms have le: "unat c \<le> unat d" by (simp add: word_le_nat_alt)
  with assms have c: "unat c < 128" by simp
  from le show ?thesis
    unfolding word_le_nat_alt maxSampleCount_threshold [OF c] maxSampleCount_threshold [OF assms(2)]
    by simp
qed

lemma getMax_min_of_maxima:
  assumes "framebufferColorSampleCounts lims < 128" "framebufferDepthSampleCounts lims < 128"
  shows "getMaxUsableSampleCount lims =
     min (maxSampleCount (framebufferColorSampleCounts lims))
         (maxSampleCount (framebufferDepthSampleCounts lims))"
proof -
  let ?c = "framebufferColorSampleCounts lims" and ?d = "framebufferDepthSampleCounts lims"
  from assms have u: "unat ?c < 128" "unat ?d < 128" by (simp_all add: word_less_nat_alt)
  have g: "getMaxUsableSampleCount lims = maxSampleCount (min ?c ?d)"
    by (simp only: getMaxUsableSampleCount_def maxSampleCount_def Let_def)
  show ?thesis
  proof (cases "?c \<le> ?d")
    case True
    with u have "maxSampleCount ?c \<le> maxSampleCount ?d" by (intro maxSampleCount_mono)
    with True g show ?thesis by (simp add: min_def)
  next
    case False
    then have le: "?d \<le> ?c" by simp
    with u have "maxSampleCount ?d \<le> maxSampleCount ?c" by (intro maxSampleCount_mono)
    with False g show ?thesis by (simp add: min_def)
  qed
qed

text \<open>
  C8. \<open>prepare\<close> first sets the sample count to \<open>getMaxUsableSampleCount\<close>: one of the
  bits 1 to 64, namely the highest of the bits 2 to 64 present in the minimum of the two
  masks, and 1 when none is; for masks with no bit beyond 64 this is the smaller of the
  maximum counts the two masks report. When both masks are non-zero (Vulkan requires
  every device to report at least one sample count), the assertion of
  \<open>setupMultisampleTarget\<close> passes for this count, the targets get built, and the render
  pass uses this count for attachments 0 and 2. For every sample count greater than one
  of the two masks the assertion fails.
\<close>

theorem max_sample_count_supported:
  assumes "framebufferColorSampleCounts lims \<noteq> 0" and "framebufferDepthSampleCounts lims \<noteq> 0"
  shows "(let counts = min (framebufferColorSampleCounts lims) (framebufferDepthSampleCounts lims);
              s = getMaxUsableSampleCount lims
          in s \<in> {VK_SAMPLE_COUNT_1_BIT, VK_SAMPLE_COUNT_2_BIT, VK_SAMPLE_COUNT_4_BIT,
                   VK_SAMPLE_COUNT_8_BIT, VK_SAMPLE_COUNT_16_BIT, VK_SAMPLE_COUNT_32_BIT,
                   VK_SAMPLE_COUNT_64_BIT} \<and>
             (s \<noteq> VK_SAMPLE_COUNT_1_BIT \<longrightarrow> counts AND s \<noteq> 0) \<and>
             (\<forall>b\<in>{VK_SAMPLE_COUNT_2_BIT, VK_SAMPLE_COUNT_4_BIT, VK_SAMPLE_COUNT_8_BIT,
                    VK_SAMPLE_COUNT_16_BIT, VK_SAMPLE_COUNT_32_BIT, VK_SAMPLE_COUNT_64_BIT}.
                counts AND b \<noteq> 0 \<longrightarrow> b \<le> s) \<and>
             (framebufferColorSampleCounts lims < 128 \<and>
              framebufferDepthSampleCounts lims < 128 \<longrightarrow>
                s = min (maxSampleCount (framebufferColorSampleCounts lims))
                        (maxSampleCount (framebufferDepthSampleCounts lims))) \<and>
             sampleCount_supported lims s \<and>
             (\<exists>ft. prepare_targets lims colorFormat depthFormat rp w h cv dv dsv swapViews junk
                      = Inr ft \<and>
                sampleCount ft = s \<and>
                map samples (pAttachments (renderPassInfo ft)) =
                  [s, VK_SAMPLE_COUNT_1_BIT, s, VK_SAMPLE_COUNT_1_BIT] \<and>
                length (frameBufferInfos ft) = length swapViews)) \<and>
         (\<forall>s. framebufferColorSampleCounts lims < s \<or> framebufferDepthSampleCounts lims < s \<longrightarrow>
              setupMultisampleTarget lims s w h cv dv = Inl AssertionFailed)"
proof -
  let ?m = "min (framebufferColorSampleCounts lims) (framebufferDepthSampleCounts lims)"
  let ?s = "getMaxUsableSampleCount lims"
  have a: "?s \<in> {VK_SAMPLE_COUNT_1_BIT, VK_SAMPLE_COUNT_2_BIT, VK_SAMPLE_COUNT_4_BIT,
                   VK_SAMPLE_COUNT_8_BIT, VK_SAMPLE_COUNT_16_BIT, VK_SAMPLE_COUNT_32_BIT,
                   VK_SAMPLE_COUNT_64_BIT}"
    unfolding getMaxUsableSampleCount_def Let_def by (rule cascade_highest)
  have b: "?s \<noteq> VK_SAMPLE_COUNT_1_BIT \<longrightarrow> ?m AND ?s \<noteq> 0"
    unfolding getMaxUsableSampleCount_def Let_def by (rule cascade_highest)
  have c: "\<forall>b\<in>{VK_SAMPLE_COUNT_2_BIT, VK_SAMPLE_COUNT_4_BIT, VK_SAMPLE_COUNT_8_BIT,
                    VK_SAMPLE_COUNT_16_BIT, VK_SAMPLE_COUNT_32_BIT, VK_SAMPLE_COUNT_64_BIT}.
                ?m AND b \<noteq> 0 \<longrightarrow> b \<le> ?s"
    unfolding getMaxUsableSampleCount_def Let_def by (rule cascade_highest)
  have mm: "framebufferColorSampleCounts lims < 128 \<and>
              framebufferDepthSampleCounts lims < 128 \<longrightarrow>
                ?s = min (maxSampleCount (framebufferColorSampleCounts lims))
                        (maxSampleCount (framebufferDepthSampleCounts lims))"
    by (intro impI, elim conjE) (rule getMax_min_of_maxima)
  from assms have d: "sampleCount_supported lims ?s" by (rule getMax_supported)
  note e = prepare_targets_supported [OF d, of colorFormat depthFormat rp w h cv dv dsv swapViews junk]
  have f: "\<forall>s. framebufferColorSampleCounts lims < s \<or> framebufferDepthSampleCounts lims < s \<longrightarrow>
              setupMultisampleTarget lims s w h cv dv = Inl AssertionFailed"
    by (intro allI impI assertion_fails)
  from a b c mm d e f show ?thesis unfolding Let_def by (intro conjI)
qed

lemma getMax_example: "getMaxUsableSampleCount example_limits = VK_SAMPLE_COUNT_4_BIT"
  by (simp add: getMaxUsableSampleCount_def example_limits_def Let_def
      VK_SAMPLE_COUNT_64_BIT_def VK_SAMPLE_COUNT_32_BIT_def
      VK_SAMPLE_COUNT_16_BIT_def VK_SAMPLE_COUNT_8_BIT_def VK_SAMPLE_COUNT_4_BIT_def
      VK_SAMPLE_COUNT_2_BIT_def)

text \<open>
  The example limits give 4 samples; 8 samples exceed the depth mask 7 and fail.
\<close>

theorem max_sample_count_supported_witness:
  "framebufferColorSampleCounts example_limits \<noteq> 0 \<and>
   framebufferDepthSampleCounts example_limits \<noteq> 0 \<and>
   getMaxUsableSampleCount example_limits = 4 \<and>
   min (maxSampleCount (framebufferColorSampleCounts example_limits))
       (maxSampleCount (framebufferDepthSampleCounts example_limits)) = 4 \<and>
   sampleCount_supported example_limits 4 \<and>
   framebufferDepthSampleCounts example_limits < 8 \<and>
   setupMultisampleTarget example_limits 8 1280 720 61 62 = Inl AssertionFailed"
proof -
  have h1: "framebufferColorSampleCounts example_limits \<noteq> 0"
    and h2: "framebufferDepthSampleCounts example_limits \<noteq> 0"
    and h3: "framebufferDepthSampleCounts example_limits < 8"
    by (simp_all add: example_limits_def)
  note t = max_sample_count_supported [OF h1 h2, of 0 0 0 1280 720 61 62 0 "[]" 0]
  from t have "sampleCount_supported example_limits (getMaxUsableSampleCount example_limits)"
    unfolding Let_def by (elim conjE)
  moreover from t h3 have "setupMultisampleTarget example_limits 8 1280 720 61 62 = Inl AssertionFailed"
    unfolding Let_def by blast
  moreover have "framebufferColorSampleCounts example_limits < 128"
    "framebufferDepthSampleCounts example_limits < 128"
    by (simp_all add: example_limits_def)
  with t have "getMaxUsableSampleCount example_limits =
      min (maxSampleCount (framebufferColorSampleCounts example_limits))
          (maxSampleCount (framebufferDepthSampleCounts example_limits))"
    unfolding Let_def by blast
  ultimately show ?thesis using h1 h2 h3
    by (simp add: getMax_example VK_SAMPLE_COUNT_4_BIT_def)
qed

section \<open>Properties of the light intensity\<close>

text \<open>
  In a prepared, running state whose frame time is within the clamp, \<open>render\<close> leaves
  the flags and the frame time alone and moves the intensity by one smoothing step.
\<close>

lemma lightInt_updateLight:
  "lightInt (uboVS (updateLight st)) = smoothed (frameTimer st) (lightInt (uboVS st))"
  by (simp add: updateLight_def smoothed_def Let_def)

lemma updateLight_flags:
  "frameTimer (updateLight st) = frameTimer st" "paused (updateLight st) = paused st"
  "prepared (updateLight st) = prepared st"
  by (simp_all add: updateLight_def Let_def)

lemma render_running:
  assumes "prepared st" "\<not> paused st" "frameTimer st \<le> f32 0.1"
  shows "intensity (render st) = smoothed (frameTimer st) (intensity st)"
    and "frameTimer (render st) = frameTimer st"
    and "prepared (render st)" and "\<not> paused (render st)"
  using assms
  by (simp_all add: render_def updateUniformBuffer_def intensity_def lightInt_updateLight
      updateLight_flags)

lemma frames_Suc: "frames (Suc n) st = render (frames n st)"
  by (simp add: frames_def)

lemma frames_running:
  assumes "prepared st" "\<not> paused st" "frameTimer st \<le> f32 0.1"
  shows "prepared (frames n st) \<and> \<not> paused (frames n st) \<and>
         frameTimer (frames n st) = frameTimer st"
proof (induction n)
  case 0
  from assms show ?case by (simp add: frames_def)
next
  case (Suc n)
  with assms(3) have "prepared (frames n st)" "\<not> paused (frames n st)"
    "frameTimer (frames n st) \<le> f32 0.1" by simp_all
  then have "prepared (render (frames n st))" "\<not> paused (render (frames n st))"
    "frameTimer (render (frames n st)) = frameTimer (frames n st)"
    by (simp_all add: render_running)
  with Suc show ?case by (simp add: frames_Suc)
qed

lemma frames_step:
  assumes "prepared st" "\<not> paused st" "frameTimer st \<le> f32 0.1"
  shows "intensity (frames (Suc n) st) = smoothed (frameTimer st) (intensity (frames n st))"
proof -
  from frames_running [OF assms, of n] assms(3)
  have r: "prepared (frames n st)" "\<not> paused (frames n st)" "frameTimer (frames n st) \<le> f32 0.1"
    and ft: "frameTimer (frames n st) = frameTimer st" by simp_all
  from r have "intensity (render (frames n st)) =
       smoothed (frameTimer (frames n st)) (intensity (frames n st))"
    by (rule render_running)
  then show ?thesis by (simp add: frames_Suc ft)
qed

text \<open>
  One step in \<open>float\<close> against the step in exact arithmetic. Each of the five roundings
  adds at most \<open>2\<^sup>-\<^sup>2\<^sup>4\<close> of its result; for a frame time within the clamp and an
  intensity in \<open>[0, 71]\<close> the sum of the errors stays below \<open>2\<^sup>-\<^sup>1\<^sup>6\<close>.
\<close>

lemma smoothed_error:
  assumes dt: "0 < dt" "dt \<le> f32 (1 / 10)" and x: "0 \<le> x" "x \<le> 71"
  shows "\<bar>smoothed dt x - (70 * (dt / 4) + x * (1 - dt / 4))\<bar> \<le> 1 / 2 ^ 16"
    and "0 \<le> smoothed dt x"
proof -
  define u :: real where "u = 1 / 2 ^ 24"
  define eta :: real where "eta = 1 / 2 ^ 150"
  have small: "0 < u" "u \<le> 1 / 1000000" "0 < eta" "eta \<le> u / 1000" "256 * u = 1 / 2 ^ 16"
    by (simp_all add: u_def eta_def)
  have err: "\<bar>f32 y - y\<bar> \<le> b * u + eta" if "0 \<le> y" "y \<le> b" for y b
    using f32_error [OF that] by (simp add: u_def eta_def)
  define kr where "kr = dt / 4"
  define kf where "kf = f32 kr"
  define A where "A = f32 (70 * kf)"
  define c where "c = f32 (1 - kf)"
  define B where "B = f32 (x * c)"
  define x' where "x' = f32 (A + B)"
  define T where "T = 70 * kr + x * (1 - kr)"
  have sm: "smoothed dt x = x'"
    by (simp add: smoothed_def Let_def LIGHT_INTENSITY_def x'_def B_def c_def A_def kf_def kr_def)
  from dt(2) have dt': "dt \<le> 13421773 / 134217728" by (simp add: f32_tenth)
  have kr: "0 \<le> kr" "kr \<le> 251 / 10000" using dt(1) dt' by (simp_all add: kr_def)
  have E1: "\<bar>kf - kr\<bar> \<le> 251 / 10000 * u + eta" unfolding kf_def using kr by (rule err)
  have kf0: "0 \<le> kf" unfolding kf_def using kr(1) by (rule f32_nonneg)
  have kf1: "kf \<le> 252 / 10000" using E1 kr small by linarith
  have a0: "0 \<le> 70 * kf" using kf0 by simp
  have a1: "70 * kf \<le> 1764 / 1000" using kf1 by simp
  have E2: "\<bar>A - 70 * kf\<bar> \<le> 1764 / 1000 * u + eta" unfolding A_def using a0 a1 by (rule err)
  have A0: "0 \<le> A" unfolding A_def using a0 by (rule f32_nonneg)
  have A1: "A \<le> 177 / 100" using E2 a1 small by linarith
  have c0': "0 \<le> 1 - kf" "1 - kf \<le> 1" using kf0 kf1 by simp_all
  have E3: "\<bar>c - (1 - kf)\<bar> \<le> 1 * u + eta" unfolding c_def using c0' by (rule err)
  have c0: "0 \<le> c" unfolding c_def using c0'(1) by (rule f32_nonneg)
  have c1: "c \<le> 1" using f32_mono [OF c0'] by (simp add: c_def)
  have b0: "0 \<le> x * c" using x(1) c0 by simp
  have "x * c \<le> 71 * 1" using x c0 c1 by (intro mult_mono) simp_all
  then have b1: "x * c \<le> 71" by simp
  have E4: "\<bar>B - x * c\<bar> \<le> 71 * u + eta" unfolding B_def using b0 b1 by (rule err)
  have B0: "0 \<le> B" unfolding B_def using b0 by (rule f32_nonneg)
  have B1: "B \<le> 7101 / 100" using E4 b1 small by linarith
  have s0: "0 \<le> A + B" using A0 B0 by simp
  have s1: "A + B \<le> 7278 / 100" using A1 B1 by simp
  have E5: "\<bar>x' - (A + B)\<bar> \<le> 7278 / 100 * u + eta" unfolding x'_def using s0 s1 by (rule err)
  have x'0: "0 \<le> x'" unfolding x'_def using s0 by (rule f32_nonneg)
  define D where "D = kf - kr"
  define DA where "DA = A - 70 * kf"
  define DB where "DB = B - x * c"
  define DS where "DS = x' - (A + B)"
  define P1 where "P1 = x * (c - (1 - kf))"
  define P2 where "P2 = x * (kf - kr)"
  have "\<bar>P1\<bar> = x * \<bar>c - (1 - kf)\<bar>" using x(1) by (simp add: P1_def abs_mult)
  also have "\<dots> \<le> 71 * (1 * u + eta)" using x E3 by (intro mult_mono) simp_all
  also have "\<dots> = 71 * u + 71 * eta" by simp
  finally have p1: "\<bar>P1\<bar> \<le> 71 * u + 71 * eta" .
  have "\<bar>P2\<bar> = x * \<bar>kf - kr\<bar>" using x(1) by (simp add: P2_def abs_mult)
  also have "\<dots> \<le> 71 * (251 / 10000 * u + eta)" using x E1 by (intro mult_mono) simp_all
  also have "\<dots> = 17821 / 10000 * u + 71 * eta" by simp
  finally have p2: "\<bar>P2\<bar> \<le> 17821 / 10000 * u + 71 * eta" .
  have eq: "x' - T = DS + DA + 70 * D + DB + P1 - P2"
    by (simp add: P1_def P2_def T_def D_def DA_def DB_def DS_def algebra_simps)
  note bd = E1 [folded D_def] E2 [folded DA_def] E4 [folded DB_def] E5 [folded DS_def] p1 p2
  have "\<bar>x' - T\<bar> \<le> 256 * u" unfolding eq using bd small by linarith
  then show "\<bar>smoothed dt x - (70 * (dt / 4) + x * (1 - dt / 4))\<bar> \<le> 1 / 2 ^ 16"
    by (simp only: sm T_def kr_def small(5))
  from x'0 show "0 \<le> smoothed dt x" by (simp only: sm)
qed

text \<open>
  The exact step moves the distance to 70 by the factor \<open>1 - k\<close>, so the step in
  \<open>float\<close> does so up to \<open>2\<^sup>-\<^sup>1\<^sup>6\<close>; from at most 71, and with a frame time of at
  least \<open>2\<^sup>-\<^sup>1\<^sup>4\<close>, the intensity stays at most 71.
\<close>

lemma exact_step:
  fixes x k :: real
  shows "(70 * k + x * (1 - k)) - 70 = (1 - k) * (x - 70)"
  by (simp add: algebra_simps)

lemma smoothed_distance:
  assumes dt: "0 < dt" "dt \<le> f32 (1 / 10)" and x: "0 \<le> x" "x \<le> 71"
  shows "\<bar>smoothed dt x - 70\<bar> \<le> (1 - dt / 4) * \<bar>x - 70\<bar> + 1 / 2 ^ 16"
proof -
  let ?T = "70 * (dt / 4) + x * (1 - dt / 4)"
  from dt(2) have "dt \<le> 13421773 / 134217728" by (simp add: f32_tenth)
  with dt(1) have q: "0 \<le> 1 - dt / 4" by simp
  have "\<bar>?T - 70\<bar> = \<bar>1 - dt / 4\<bar> * \<bar>x - 70\<bar>" by (simp only: exact_step abs_mult)
  with q have e: "\<bar>?T - 70\<bar> = (1 - dt / 4) * \<bar>x - 70\<bar>" by simp
  have "\<bar>smoothed dt x - 70\<bar> \<le> \<bar>smoothed dt x - ?T\<bar> + \<bar>?T - 70\<bar>" by linarith
  with smoothed_error(1) [OF dt x] e show ?thesis by linarith
qed

lemma smoothed_upper:
  assumes dt: "1 / 2 ^ 14 \<le> dt" "dt \<le> f32 (1 / 10)" and x: "0 \<le> x" "x \<le> 71"
  shows "smoothed dt x \<le> 71"
proof -
  let ?T = "70 * (dt / 4) + x * (1 - dt / 4)"
  from dt(1) have pos: "0 < dt" by (simp add: less_le_trans [of 0 "1 / 2 ^ 14"])
  from dt(2) have "dt \<le> 13421773 / 134217728" by (simp add: f32_tenth)
  then have q: "0 \<le> 1 - dt / 4" by simp
  from q x(2) have "x * (1 - dt / 4) \<le> 71 * (1 - dt / 4)" by (rule mult_right_mono [rotated])
  then have "?T \<le> 71 - dt / 4" by (simp add: algebra_simps)
  moreover from dt(1) have "1 / 2 ^ 16 \<le> dt / 4" by simp
  moreover from smoothed_error(1) [OF pos dt(2) x] have "smoothed dt x \<le> ?T + 1 / 2 ^ 16"
    by linarith
  ultimately show ?thesis by linarith
qed

lemma frames_bounded:
  assumes "prepared st" "\<not> paused st" "1 / 2 ^ 14 \<le> frameTimer st" "frameTimer st \<le> f32 0.1"
    and "0 \<le> intensity st" "intensity st \<le> 71"
  shows "0 \<le> intensity (frames n st) \<and> intensity (frames n st) \<le> 71"
proof (induction n)
  case 0
  from assms show ?case by (simp add: frames_def)
next
  case (Suc n)
  from assms(3) have pos: "0 < frameTimer st" by (simp add: less_le_trans [of 0 "1 / 2 ^ 14"])
  from assms(4) have le: "frameTimer st \<le> f32 (1 / 10)" by simp
  from Suc have x: "0 \<le> intensity (frames n st)" "intensity (frames n st) \<le> 71" by simp_all
  have s: "intensity (frames (Suc n) st) = smoothed (frameTimer st) (intensity (frames n st))"
    using assms(1,2,4) by (rule frames_step)
  from smoothed_error(2) [OF pos le x] smoothed_upper [OF assms(3) le x] show ?case
    by (simp only: s simp_thms)
qed

lemma frames_distance:
  assumes "prepared st" "\<not> paused st" "1 / 2 ^ 14 \<le> frameTimer st" "frameTimer st \<le> f32 0.1"
    and "0 \<le> intensity st" "intensity st \<le> 71"
  shows "\<bar>intensity (frames n st) - 70\<bar> \<le>
     (1 - frameTimer st / 4) ^ n * \<bar>intensity st - 70\<bar> + (1 / 2 ^ 16) / (frameTimer st / 4)"
proof (induction n)
  case 0
  from assms(3) have "0 < frameTimer st" by (simp add: less_le_trans [of 0 "1 / 2 ^ 14"])
  then have "0 \<le> (1 / 2 ^ 16) / (frameTimer st / 4)" by simp
  then show ?case by (simp add: frames_def)
next
  case (Suc n)
  define k where "k = frameTimer st / 4"
  define d where "d = \<bar>intensity (frames n st) - 70\<bar>"
  define d0 where "d0 = \<bar>intensity st - 70\<bar>"
  define eps :: real where "eps = 1 / 2 ^ 16"
  from assms(3) have pos: "0 < frameTimer st" by (simp add: less_le_trans [of 0 "1 / 2 ^ 14"])
  then have k: "0 < k" by (simp add: k_def)
  from assms(4) have le: "frameTimer st \<le> f32 (1 / 10)" by simp
  then have "frameTimer st \<le> 13421773 / 134217728" by (simp add: f32_tenth)
  then have q: "0 \<le> 1 - k" by (simp add: k_def)
  from frames_bounded [OF assms, of n]
  have x: "0 \<le> intensity (frames n st)" "intensity (frames n st) \<le> 71" by simp_all
  have s: "intensity (frames (Suc n) st) = smoothed (frameTimer st) (intensity (frames n st))"
    using assms(1,2,4) by (rule frames_step)
  from smoothed_distance [OF pos le x]
  have "\<bar>intensity (frames (Suc n) st) - 70\<bar> \<le> (1 - k) * d + eps"
    by (simp only: s k_def d_def eps_def)
  also have "\<dots> \<le> (1 - k) * ((1 - k) ^ n * d0 + eps / k) + eps"
    using Suc q by (simp add: mult_left_mono k_def d_def d0_def eps_def)
  also have "\<dots> = (1 - k) ^ Suc n * d0 + eps / k"
    using k by (simp add: field_simps)
  finally show ?case by (simp only: k_def d0_def eps_def)
qed

text \<open>
  The frame time \<open>0.1f\<close> and the intensity 0 of the first frame, and the intensity of
  \<open>stalledState\<close>: the product \<open>70 * k\<close> rounds to 1.75 and \<open>1 - k\<close> to
  \<open>8178893 / 2\<^sup>2\<^sup>3\<close>; with the intensity \<open>9175029 / 2\<^sup>1\<^sup>7\<close> the second product
  rounds to \<open>8945653 / 2\<^sup>1\<^sup>7\<close>, and the sum is the intensity again.
\<close>

lemma smoothed_tenth:
  "smoothed (f32 (1 / 10)) 0 = 7 / 4"
  "smoothed (f32 (1 / 10)) (9175029 / 131072) = 9175029 / 131072"
proof -
  have k: "f32 (13421773 / 536870912) = 13421773 / 536870912"
    using f32_ratio [of 13421773 29] by simp
  have a: "f32 (469762055 / 268435456) = 7 / 4"
    using f32_normal [of 0 "469762055 / 268435456"] by (simp add: round_even_def)
  have c: "f32 (523449139 / 536870912) = 8178893 / 8388608"
    using f32_normal [of "- 1" "523449139 / 536870912"] by (simp add: round_even_def)
  have b: "f32 (75041580462897 / 1099511627776) = 8945653 / 131072"
    using f32_normal [of 6 "75041580462897 / 1099511627776"] by (simp add: round_even_def)
  have s: "f32 (9175029 / 131072) = 9175029 / 131072"
    using f32_ratio [of 9175029 17] by simp
  have e: "smoothed (f32 (1 / 10)) x = f32 (7 / 4 + f32 (x * (8178893 / 8388608)))" for x
    by (simp add: smoothed_def Let_def LIGHT_INTENSITY_def f32_tenth k a c)
  show "smoothed (f32 (1 / 10)) 0 = 7 / 4" by (simp add: e)
  show "smoothed (f32 (1 / 10)) (9175029 / 131072) = 9175029 / 131072"
    by (simp add: e b s)
qed

lemma stalledState_running:
  "prepared stalledState" "\<not> paused stalledState" "frameTimer stalledState = f32 (1 / 10)"
  "intensity stalledState = 9175029 / 131072"
  by (simp_all add: stalledState_def initialState_def intensity_def)

lemma stalledState_frames: "intensity (frames n stalledState) = 9175029 / 131072"
proof (induction n)
  case 0
  show ?case by (simp add: frames_def stalledState_running)
next
  case (Suc n)
  have "intensity (frames (Suc n) stalledState) =
      smoothed (frameTimer stalledState) (intensity (frames n stalledState))"
    by (rule frames_step) (simp_all add: stalledState_running)
  then show ?case by (simp only: Suc stalledState_running smoothed_tenth)
qed

text \<open>
  C9, as stated, fails for the \<open>float\<close> the program computes with. At the frame time
  \<open>0.1f\<close> the first frame takes the intensity from 0 to exactly 1.75, so the distance to
  70 is 68.25 and not \<open>(1 - k) * 70\<close>. And in \<open>stalledState\<close>, whose intensity is below
  70, a frame leaves the intensity as it is: the distance does not decrease, the
  intensity stays where it is through every later frame, and the sequence does not
  converge to 70.
\<close>

theorem light_intensity_stalls:
  "prepared (initialState (f32 0.1)) \<and> \<not> paused (initialState (f32 0.1)) \<and>
   0 < frameTimer (initialState (f32 0.1)) \<and> frameTimer (initialState (f32 0.1)) \<le> f32 0.1 \<and>
   intensity (initialState (f32 0.1)) = 0 \<and>
   intensity (render (initialState (f32 0.1))) = 1.75 \<and>
   \<bar>intensity (render (initialState (f32 0.1))) - 70\<bar> \<noteq>
     (1 - 0.25 * frameTimer (initialState (f32 0.1))) * \<bar>intensity (initialState (f32 0.1)) - 70\<bar> \<and>
   prepared stalledState \<and> \<not> paused stalledState \<and>
   frameTimer stalledState = f32 0.1 \<and> intensity stalledState < 70 \<and>
   intensity (render stalledState) = intensity stalledState \<and>
   \<not> \<bar>intensity (render stalledState) - 70\<bar> < \<bar>intensity stalledState - 70\<bar> \<and>
   (\<forall>n. intensity (frames n stalledState) = intensity stalledState) \<and>
   \<not> (\<lambda>n. intensity (frames n stalledState)) \<longlonglongrightarrow> 70"
proof -
  let ?st = "initialState (f32 0.1)"
  have h: "prepared ?st" "\<not> paused ?st" "frameTimer ?st \<le> f32 0.1"
    by (simp_all add: initialState_def)
  have ft0: "frameTimer ?st = f32 (1 / 10)"
    by (simp add: initialState_def)
  have ft: "frameTimer ?st = 13421773 / 134217728"
    by (simp add: initialState_def f32_tenth)
  have x: "intensity ?st = 0"
    by (simp add: initialState_def intensity_def initialUBOVS_def)
  have "intensity (render ?st) = smoothed (frameTimer ?st) (intensity ?st)"
    using h by (rule render_running)
  then have x': "intensity (render ?st) = 7 / 4"
    by (simp only: x ft0 smoothed_tenth)
  have a: "0 < frameTimer ?st" "intensity (render ?st) = 1.75"
    "\<bar>intensity (render ?st) - 70\<bar> \<noteq> (1 - 0.25 * frameTimer ?st) * \<bar>intensity ?st - 70\<bar>"
    by (simp_all add: x x' ft)
  have r: "intensity (render stalledState) = smoothed (frameTimer stalledState) (intensity stalledState)"
    by (rule render_running) (simp_all add: stalledState_running)
  then have stay: "intensity (render stalledState) = intensity stalledState"
    by (simp only: stalledState_running smoothed_tenth)
  have lim: "(\<lambda>n. intensity (frames n stalledState)) \<longlonglongrightarrow> 9175029 / 131072"
    by (simp only: stalledState_frames tendsto_const)
  have nolim: "\<not> (\<lambda>n. intensity (frames n stalledState)) \<longlonglongrightarrow> 70"
  proof
    assume "(\<lambda>n. intensity (frames n stalledState)) \<longlonglongrightarrow> 70"
    with lim have "(9175029 / 131072 :: real) = 70" by (rule LIMSEQ_unique)
    then show False by simp
  qed
  have b: "frameTimer stalledState = f32 0.1" "intensity stalledState < 70"
    "\<not> \<bar>intensity (render stalledState) - 70\<bar> < \<bar>intensity stalledState - 70\<bar>"
    "\<forall>n. intensity (frames n stalledState) = intensity stalledState"
    by (simp_all add: stay stalledState_frames stalledState_running)
  show ?thesis
    by (intro conjI h x a stalledState_running(1,2) b stay nolim)
qed

text \<open>
  C9, amended. In a prepared and running state with a constant frame time \<open>dt\<close> in
  \<open>(0, 0.1f]\<close> and an intensity \<open>x\<close> in \<open>[0, 70]\<close>, one frame takes the intensity to
  \<open>x'\<close>, the value of \<open>70 * k + x * (1 - k)\<close> with each of the operations rounded
  to \<open>float\<close>. With \<open>k = 0.25 * dt\<close> and \<open>0 < 1 - k < 1\<close>, \<open>x'\<close> differs from the exact
  \<open>70 * k + x * (1 - k)\<close> by at most \<open>\<epsilon> = 2\<^sup>-\<^sup>1\<^sup>6\<close>; so
  \<open>|x' - 70| \<le> (1 - k) * |x - 70| + \<epsilon>\<close>, the distance to 70 strictly decreases as long
  as \<open>k * |x - 70| > \<epsilon>\<close>, and \<open>x'\<close> lies between \<open>x - \<epsilon>\<close> and \<open>70 + \<epsilon>\<close>. If moreover
  \<open>dt \<ge> 2\<^sup>-\<^sup>1\<^sup>4\<close>, then through all later frames the intensity stays in \<open>[0, 71]\<close>, each
  frame is within \<open>\<epsilon>\<close> of the exact step, and after \<open>n\<close> frames the distance to 70 is at
  most \<open>(1 - k)\<^sup>n * |x - 70| + \<epsilon> / k\<close>: the sequence approaches 70 up to \<open>\<epsilon> / k\<close>, and
  need not reach it.
\<close>

theorem light_intensity_approaches_target:
  assumes "prepared st" and "\<not> paused st"
    and "0 < frameTimer st" and "frameTimer st \<le> f32 0.1"
    and "0 \<le> intensity st" and "intensity st \<le> 70"
  shows "LIGHT_INTENSITY = 70 \<and>
     (let k = 0.25 * frameTimer st; kf = f32 (f32 0.25 * frameTimer st);
          x = intensity st; x' = intensity (render st); eps = 1 / 2 ^ 16 in
        x' = f32 (f32 (70 * kf) + f32 (x * f32 (1 - kf))) \<and>
        0 < 1 - k \<and> 1 - k < 1 \<and>
        \<bar>x' - (70 * k + x * (1 - k))\<bar> \<le> eps \<and>
        \<bar>x' - 70\<bar> \<le> (1 - k) * \<bar>x - 70\<bar> + eps \<and>
        (eps < k * \<bar>x - 70\<bar> \<longrightarrow> \<bar>x' - 70\<bar> < \<bar>x - 70\<bar>) \<and>
        x - eps \<le> x' \<and> x' \<le> 70 + eps \<and>
        (1 / 2 ^ 14 \<le> frameTimer st \<longrightarrow>
           (\<forall>n. 0 \<le> intensity (frames n st) \<and> intensity (frames n st) \<le> 71 \<and>
                \<bar>intensity (frames (Suc n) st) -
                   (70 * k + intensity (frames n st) * (1 - k))\<bar> \<le> eps \<and>
                \<bar>intensity (frames n st) - 70\<bar> \<le> (1 - k) ^ n * \<bar>x - 70\<bar> + eps / k)))"
proof -
  define k where "k = frameTimer st / 4"
  define x where "x = intensity st"
  define x' where "x' = intensity (render st)"
  define eps :: real where "eps = 1 / 2 ^ 16"
  have L: "LIGHT_INTENSITY = 70" by (simp add: LIGHT_INTENSITY_def)
  from assms(4) have le: "frameTimer st \<le> f32 (1 / 10)" by simp
  then have le': "frameTimer st \<le> 13421773 / 134217728" by (simp add: f32_tenth)
  from assms(3) le' have q: "0 < 1 - k" "1 - k < 1" and kpos: "0 < k" by (simp_all add: k_def)
  from assms(5,6) have xr: "0 \<le> x" "x \<le> 71" "x \<le> 70" by (simp_all add: x_def)
  have s: "x' = smoothed (frameTimer st) x"
    unfolding x'_def x_def using assms(1,2,4) by (rule render_running)
  have f: "x' = f32 (f32 (70 * f32 (f32 0.25 * frameTimer st)) +
      f32 (x * f32 (1 - f32 (f32 0.25 * frameTimer st))))"
    by (simp add: s smoothed_def Let_def LIGHT_INTENSITY_def)
  have e: "\<bar>x' - (70 * k + x * (1 - k))\<bar> \<le> eps"
    unfolding s k_def eps_def using assms(3) le xr(1,2) by (rule smoothed_error)
  have d: "\<bar>x' - 70\<bar> \<le> (1 - k) * \<bar>x - 70\<bar> + eps"
    unfolding s k_def eps_def using assms(3) le xr(1,2) by (rule smoothed_distance)
  have strict: "eps < k * \<bar>x - 70\<bar> \<longrightarrow> \<bar>x' - 70\<bar> < \<bar>x - 70\<bar>"
  proof
    assume "eps < k * \<bar>x - 70\<bar>"
    then have "(1 - k) * \<bar>x - 70\<bar> + eps < \<bar>x - 70\<bar>" by (simp add: algebra_simps)
    with d show "\<bar>x' - 70\<bar> < \<bar>x - 70\<bar>" by linarith
  qed
  have T: "70 * k + x * (1 - k) = x + k * (70 - x)" "70 * k + x * (1 - k) = 70 - (1 - k) * (70 - x)"
    by (simp_all add: algebra_simps)
  from kpos xr(3) have "0 \<le> k * (70 - x)" by simp
  with T(1) e have lo: "x - eps \<le> x'" by linarith
  from q(1) xr(3) have "0 \<le> (1 - k) * (70 - x)" by simp
  with T(2) e have hi: "x' \<le> 70 + eps" by linarith
  have many: "1 / 2 ^ 14 \<le> frameTimer st \<longrightarrow>
      (\<forall>n. 0 \<le> intensity (frames n st) \<and> intensity (frames n st) \<le> 71 \<and>
           \<bar>intensity (frames (Suc n) st) - (70 * k + intensity (frames n st) * (1 - k))\<bar> \<le> eps \<and>
           \<bar>intensity (frames n st) - 70\<bar> \<le> (1 - k) ^ n * \<bar>x - 70\<bar> + eps / k)"
  proof (intro impI allI)
    fix n
    assume lb: "1 / 2 ^ 14 \<le> frameTimer st"
    from assms(6) have x71: "intensity st \<le> 71" by simp
    note b = frames_bounded [OF assms(1,2) lb assms(4,5) x71, of n]
    then have bn: "0 \<le> intensity (frames n st)" "intensity (frames n st) \<le> 71" by simp_all
    have sn: "intensity (frames (Suc n) st) = smoothed (frameTimer st) (intensity (frames n st))"
      using assms(1,2,4) by (rule frames_step)
    have en: "\<bar>intensity (frames (Suc n) st) - (70 * k + intensity (frames n st) * (1 - k))\<bar> \<le> eps"
      unfolding sn k_def eps_def using assms(3) le bn by (rule smoothed_error)
    have dn: "\<bar>intensity (frames n st) - 70\<bar> \<le> (1 - k) ^ n * \<bar>x - 70\<bar> + eps / k"
      unfolding k_def x_def eps_def
      using assms(1,2) lb assms(4,5) x71 by (rule frames_distance)
    from bn en dn
    show "0 \<le> intensity (frames n st) \<and> intensity (frames n st) \<le> 71 \<and>
           \<bar>intensity (frames (Suc n) st) - (70 * k + intensity (frames n st) * (1 - k))\<bar> \<le> eps \<and>
           \<bar>intensity (frames n st) - 70\<bar> \<le> (1 - k) ^ n * \<bar>x - 70\<bar> + eps / k"
      by (intro conjI)
  qed
  have k': "0.25 * frameTimer st = k" by (simp add: k_def)
  from f q e d strict lo hi many show ?thesis
    unfolding Let_def L k' x_def [symmetric] x'_def [symmetric] eps_def [symmetric]
    by (intro conjI refl)
qed

text \<open>
  From the initial state, where the intensity is 0, with the frame time \<open>0.1f\<close>: the
  first frame gives exactly 1.75, which is within \<open>2\<^sup>-\<^sup>1\<^sup>6\<close> of the exact step and nearer
  to 70 than 0 is; and after every number of frames the intensity lies in \<open>[0, 71]\<close>.
\<close>

theorem light_intensity_approaches_target_witness:
  "prepared (initialState (f32 0.1)) \<and> \<not> paused (initialState (f32 0.1)) \<and>
   0 < frameTimer (initialState (f32 0.1)) \<and> frameTimer (initialState (f32 0.1)) \<le> f32 0.1 \<and>
   1 / 2 ^ 14 \<le> frameTimer (initialState (f32 0.1)) \<and>
   0 \<le> intensity (initialState (f32 0.1)) \<and> intensity (initialState (f32 0.1)) \<le> 70 \<and>
   1 / 2 ^ 16 < 0.25 * frameTimer (initialState (f32 0.1)) * \<bar>intensity (initialState (f32 0.1)) - 70\<bar> \<and>
   intensity (render (initialState (f32 0.1))) = 1.75 \<and>
   \<bar>intensity (render (initialState (f32 0.1))) -
      (70 * (0.25 * frameTimer (initialState (f32 0.1))) +
       intensity (initialState (f32 0.1)) * (1 - 0.25 * frameTimer (initialState (f32 0.1))))\<bar>
     \<le> 1 / 2 ^ 16 \<and>
   \<bar>intensity (render (initialState (f32 0.1))) - 70\<bar> < \<bar>intensity (initialState (f32 0.1)) - 70\<bar> \<and>
   intensity (frames 600 (initialState (f32 0.1))) \<le> 71 \<and>
   \<bar>intensity (frames 600 (initialState (f32 0.1))) - 70\<bar> \<le>
     (1 - 0.25 * frameTimer (initialState (f32 0.1))) ^ 600 * \<bar>intensity (initialState (f32 0.1)) - 70\<bar> +
     1 / 2 ^ 16 / (0.25 * frameTimer (initialState (f32 0.1)))"
proof -
  let ?st = "initialState (f32 0.1)"
  have ft: "frameTimer ?st = 13421773 / 134217728"
    by (simp add: initialState_def f32_tenth)
  have h: "prepared ?st" "\<not> paused ?st" "0 < frameTimer ?st" "frameTimer ?st \<le> f32 0.1"
    by (simp_all add: initialState_def) (simp add: f32_tenth)
  have x: "intensity ?st = 0"
    by (simp add: initialState_def intensity_def initialUBOVS_def)
  have hx: "0 \<le> intensity ?st" "intensity ?st \<le> 70" by (simp_all add: x)
  have lb: "1 / 2 ^ 14 \<le> frameTimer ?st" by (simp add: ft)
  have big: "1 / 2 ^ 16 < 0.25 * frameTimer ?st * \<bar>intensity ?st - 70\<bar>" by (simp add: ft x)
  note t = light_intensity_approaches_target [OF h hx, unfolded Let_def]
  from t have f: "intensity (render ?st) =
      f32 (f32 (70 * f32 (f32 0.25 * frameTimer ?st)) +
        f32 (intensity ?st * f32 (1 - f32 (f32 0.25 * frameTimer ?st))))"
    by (elim conjE)
  have ft0: "frameTimer ?st = f32 (1 / 10)"
    by (simp add: initialState_def)
  have "intensity (render ?st) = smoothed (f32 (1 / 10)) 0"
    by (simp only: f x ft0 smoothed_def Let_def LIGHT_INTENSITY_def)
  then have x': "intensity (render ?st) = 1.75" by (simp add: smoothed_tenth)
  from t have e: "\<bar>intensity (render ?st) -
      (70 * (0.25 * frameTimer ?st) + intensity ?st * (1 - 0.25 * frameTimer ?st))\<bar> \<le> 1 / 2 ^ 16"
    by (elim conjE)
  from t have "1 / 2 ^ 16 < 0.25 * frameTimer ?st * \<bar>intensity ?st - 70\<bar> \<longrightarrow>
      \<bar>intensity (render ?st) - 70\<bar> < \<bar>intensity ?st - 70\<bar>"
    by (elim conjE)
  with big have dec: "\<bar>intensity (render ?st) - 70\<bar> < \<bar>intensity ?st - 70\<bar>" by (rule rev_mp)
  from t have "1 / 2 ^ 14 \<le> frameTimer ?st \<longrightarrow>
      (\<forall>n. 0 \<le> intensity (frames n ?st) \<and> intensity (frames n ?st) \<le> 71 \<and>
         \<bar>intensity (frames (Suc n) ?st) -
            (70 * (0.25 * frameTimer ?st) +
             intensity (frames n ?st) * (1 - 0.25 * frameTimer ?st))\<bar> \<le> 1 / 2 ^ 16 \<and>
         \<bar>intensity (frames n ?st) - 70\<bar> \<le>
            (1 - 0.25 * frameTimer ?st) ^ n * \<bar>intensity ?st - 70\<bar> +
            1 / 2 ^ 16 / (0.25 * frameTimer ?st))"
    by (elim conjE)
  with lb have all: "\<forall>n. 0 \<le> intensity (frames n ?st) \<and> intensity (frames n ?st) \<le> 71 \<and>
         \<bar>intensity (frames (Suc n) ?st) -
            (70 * (0.25 * frameTimer ?st) +
             intensity (frames n ?st) * (1 - 0.25 * frameTimer ?st))\<bar> \<le> 1 / 2 ^ 16 \<and>
         \<bar>intensity (frames n ?st) - 70\<bar> \<le>
            (1 - 0.25 * frameTimer ?st) ^ n * \<bar>intensity ?st - 70\<bar> +
            1 / 2 ^ 16 / (0.25 * frameTimer ?st)"
    by (rule rev_mp)
  from all have n1: "intensity (frames 600 ?st) \<le> 71" by blast
  from all have n2: "\<bar>intensity (frames 600 ?st) - 70\<bar> \<le>
      (1 - 0.25 * frameTimer ?st) ^ 600 * \<bar>intensity ?st - 70\<bar> +
      1 / 2 ^ 16 / (0.25 * frameTimer ?st)"
    by blast
  from h lb hx big x' e dec n1 n2 show ?thesis by (intro conjI)
qed

end
